theory Spec2Isabelle
  imports Main
begin

section \<open>Strings\<close>

text \<open>
  A Python \<open>str\<close> is modelled as a \<open>string\<close>; a \<open>char\<close> stands for a code point
  below 256, so the string functions are those of Python on Latin-1 text:
  \<open>str.lower\<close> moves \<open>A\<close>..\<open>Z\<close> and the capital letters of 192..222 (all but the
  multiplication sign 215) up by 32, \<open>str.strip\<close> removes the code points on which
  \<open>str.isspace\<close> holds from both ends.
\<close>

definition lower_char :: "char \<Rightarrow> char" where
  "lower_char c =
     (let n = of_char c :: nat
      in if (65 \<le> n \<and> n \<le> 90) \<or> (192 \<le> n \<and> n \<le> 222 \<and> n \<noteq> 215)
         then char_of (n + 32) else c)"

definition lower :: "string \<Rightarrow> string" where
  "lower s = map lower_char s"

definition isspace :: "char \<Rightarrow> bool" where
  "isspace c =
     (let n = of_char c :: nat
      in (9 \<le> n \<and> n \<le> 13) \<or> (28 \<le> n \<and> n \<le> 32) \<or> n = 133 \<or> n = 160)"

definition strip :: "string \<Rightarrow> string" where
  "strip s = rev (dropWhile isspace (rev (dropWhile isspace s)))"

text \<open>\<open>s.split(d)\<close> for a one-character separator: never the empty list.\<close>

fun split :: "char \<Rightarrow> string \<Rightarrow> string list" where
  "split d [] = [[]]"
| "split d (c # cs) =
     (if c = d then [] # split d cs
      else (case split d cs of [] \<Rightarrow> [[c]] | w # ws \<Rightarrow> (c # w) # ws))"

text \<open>\<open>s.rsplit('.', 1)[1]\<close>, read only where \<open>'.' in s\<close>: what follows the last dot.\<close>

definition rsplit_dot_1 :: "string \<Rightarrow> string" where
  "rsplit_dot_1 s = rev (takeWhile (\<lambda>c. c \<noteq> CHR ''.'') (rev s))"

text \<open>\<open>str(n)\<close> of a natural number, as an f-string formats a counter.\<close>

fun str_of_nat :: "nat \<Rightarrow> string" where
  "str_of_nat n =
     (if n < 10 then [char_of (48 + n)]
      else str_of_nat (n div 10) @ [char_of (48 + n mod 10)])"

declare str_of_nat.simps [simp del]

text \<open>
  Modelled from the spec: \<open>slugify\<close> is the function of the third-party package
  \<open>python-slugify\<close>, which the repository imports and does not contain. The operations
  below take it as the parameter \<open>slugify\<close>, so the theorems hold for any such function.
  \<open>slugify_ascii\<close> follows the words of 4.1 (``a lowercase, hyphen-separated ASCII token
  sequence (strip punctuation, collapse whitespace/hyphens)'') and is used only to run the
  operations on concrete ASCII titles and names.
\<close>

definition slug_char :: "char \<Rightarrow> char" where
  "slug_char c =
     (let n = of_char (lower_char c) :: nat
      in if (97 \<le> n \<and> n \<le> 122) \<or> (48 \<le> n \<and> n \<le> 57) then lower_char c else CHR ''-'')"

fun collapse_hyphens :: "string \<Rightarrow> string" where
  "collapse_hyphens (a # b # cs) =
     (if a = CHR ''-'' \<and> b = CHR ''-'' then collapse_hyphens (b # cs)
      else a # collapse_hyphens (b # cs))"
| "collapse_hyphens cs = cs"

definition slugify_ascii :: "string \<Rightarrow> string" where
  "slugify_ascii s =
     (let h = (\<lambda>c. c = CHR ''-'')
      in rev (dropWhile h (rev (dropWhile h (collapse_hyphens (map slug_char s))))))"


section \<open>Site settings\<close>

text \<open>
  The table \<open>site_settings\<close> of \<open>models.py\<close>: rows in insertion order. A timestamp is a
  reading of the clock (\<open>datetime.utcnow()\<close>), given to every operation that reads it. The
  column \<open>value\<close> is nullable, so a value is a \<open>string option\<close>, and so are the default and
  the result of \<open>get\<close>.
\<close>

record site_settings =
  setting_id :: nat
  setting_key :: string
  setting_value :: "string option"
  setting_updated_at :: nat

text \<open>The primary key of a new row: one more than the largest in the table.\<close>

definition next_id :: "nat list \<Rightarrow> nat" where
  "next_id ids = Suc (fold max ids 0)"

text \<open>\<open>SiteSettings.query.filter_by(key=key).first()\<close>\<close>

definition settings_by_key :: "string \<Rightarrow> site_settings list \<Rightarrow> site_settings option" where
  "settings_by_key k rows = find (\<lambda>r. setting_key r = k) rows"

definition settings_get :: "string \<Rightarrow> string option \<Rightarrow> site_settings list \<Rightarrow> string option" where
  "settings_get k dflt rows =
     (case settings_by_key k rows of Some setting \<Rightarrow> setting_value setting | None \<Rightarrow> dflt)"

text \<open>
  \<open>SiteSettings.set\<close>: the row found is updated in place (by its primary key; \<open>updated_at\<close>
  follows when the value changes), otherwise a row is added; the commit stores either. The
  function returns the setting and the table.
\<close>

definition settings_set ::
  "string \<Rightarrow> string option \<Rightarrow> nat \<Rightarrow> site_settings list \<Rightarrow> site_settings \<times> site_settings list" where
  "settings_set k v now rows =
     (case settings_by_key k rows of
        Some setting \<Rightarrow>
          (let setting' =
                 (if setting_value setting = v then setting
                  else setting\<lparr>setting_value := v, setting_updated_at := now\<rparr>)
           in (setting',
               map (\<lambda>r. if setting_id r = setting_id setting then
                            (if setting_value r = v then r
                             else r\<lparr>setting_value := v, setting_updated_at := now\<rparr>)
                          else r) rows))
      | None \<Rightarrow>
          (let setting = \<lparr>setting_id = next_id (map setting_id rows), setting_key = k,
                          setting_value = v, setting_updated_at = now\<rparr>
           in (setting, rows @ [setting])))"



section \<open>Users, posts and tags\<close>

text \<open>
  The tables of \<open>models.py\<close>, rows in insertion order. Nullable columns that the code
  reads as such are options: \<open>views\<close> (\<open>self.views or 0\<close>), \<open>published_at\<close>
  (\<open>not post.published_at\<close>) and \<open>cover_image\<close>. The attribute \<open>content\<close> of a post is an
  option too, since the constructor takes \<open>form.content.data\<close> as it is (and
  \<open>reading_time\<close> reads \<open>self.content or ''\<close>); the column is \<open>nullable=False\<close>, which the
  insert checks. \<open>post_tags\<close> is the association table, a list of (post id, tag id).
  \<open>uploads\<close> is the set of file names in \<open>UPLOAD_FOLDER\<close>.
\<close>

record user =
  user_id :: nat
  username :: string
  email :: string
  password_hash :: string
  is_admin :: bool

record post =
  post_id :: nat
  title :: string
  slug :: string
  excerpt :: string
  content :: "string option"
  cover_image :: "string option"
  is_published :: bool
  is_featured :: bool
  views :: "int option"
  created_at :: nat
  updated_at :: nat
  published_at :: "nat option"
  author_id :: nat

record tag =
  tag_id :: nat
  tag_name :: string
  tag_slug :: string

record app =
  users :: "user list"
  posts :: "post list"
  tags :: "tag list"
  post_tags :: "(nat \<times> nat) list"
  uploads :: "string set"

text \<open>
  What a handler raises instead of answering: the redirect of \<open>login_required\<close>,
  \<open>abort(403)\<close>, the 404 of \<open>get_or_404\<close> and \<open>first_or_404\<close>, the database's
  \<open>IntegrityError\<close> on a violated constraint (the transaction is rolled back), and the
  \<open>AttributeError\<close> of Python on an attribute that a value does not have. Nothing is
  committed then. An answer is a redirect to an endpoint with the messages flashed, or a
  rendered template.
\<close>

datatype failure = Unauthorized | Forbidden | NotFound | IntegrityError | AttributeError

datatype reply = Redirect string "(string \<times> string) list" | Render string

text \<open>The clock reading and the \<open>uuid.uuid4().hex\<close> that a request draws.\<close>

record ctx =
  utcnow :: nat
  uuid4_hex :: string


section \<open>Slug of a post\<close>

text \<open>
  \<open>Post.generate_slug\<close>. The loop of lines 79 to 81, on the slug tried and the counter;
  \<open>Post.query.filter_by(slug=slug).first() is not None\<close> is \<open>find\<close> on the rows.
\<close>

lemma str_of_nat_not_Nil: "str_of_nat n \<noteq> []"
  by (subst str_of_nat.simps) simp

lemma digit_char_inj:
  assumes "a < 10" and "b < 10" and "(char_of (48 + a) :: char) = char_of (48 + b)"
  shows "a = (b::nat)"
proof -
  from assms(3) have "(of_char (char_of (48 + a) :: char) :: nat) = of_char (char_of (48 + b) :: char)"
    by simp
  with assms(1,2) show ?thesis by (simp add: of_char_of)
qed

lemma str_of_nat_inj: "str_of_nat n = str_of_nat m \<Longrightarrow> n = m"
proof (induction n arbitrary: m rule: str_of_nat.induct)
  case (1 n)
  show ?case
  proof (cases "n < 10")
    case True
    then have n: "str_of_nat n = [char_of (48 + n)]"
      by (subst str_of_nat.simps) simp
    show ?thesis
    proof (cases "m < 10")
      case mt: True
      then have "str_of_nat m = [char_of (48 + m)]"
        by (subst str_of_nat.simps) simp
      with n "1.prems" True mt show ?thesis
        by (auto dest: digit_char_inj)
    next
      case mf: False
      then have "str_of_nat m = str_of_nat (m div 10) @ [char_of (48 + m mod 10)]"
        by (subst str_of_nat.simps) simp
      with n "1.prems" str_of_nat_not_Nil [of "m div 10"] show ?thesis
        by (cases "str_of_nat (m div 10)") auto
    qed
  next
    case False
    then have n: "str_of_nat n = str_of_nat (n div 10) @ [char_of (48 + n mod 10)]"
      by (subst str_of_nat.simps) simp
    show ?thesis
    proof (cases "m < 10")
      case mt: True
      then have "str_of_nat m = [char_of (48 + m)]"
        by (subst str_of_nat.simps) simp
      with n "1.prems" str_of_nat_not_Nil [of "n div 10"] show ?thesis
        by (cases "str_of_nat (n div 10)") auto
    next
      case mf: False
      then have "str_of_nat m = str_of_nat (m div 10) @ [char_of (48 + m mod 10)]"
        by (subst str_of_nat.simps) simp
      with n "1.prems" have e: "str_of_nat (n div 10) = str_of_nat (m div 10)"
        and d: "(char_of (48 + n mod 10) :: char) = char_of (48 + m mod 10)"
        by auto
      from "1.IH" [OF False e] have "n div 10 = m div 10" .
      moreover from d have "n mod 10 = m mod 10"
        by (intro digit_char_inj) simp_all
      ultimately show ?thesis
        by (metis div_mult_mod_eq)
    qed
  qed
qed

definition candidate :: "string \<Rightarrow> nat \<Rightarrow> string" where
  "candidate base_slug counter = base_slug @ ''-'' @ str_of_nat counter"

lemma candidate_inj: "candidate b i = candidate b j \<Longrightarrow> i = j"
  by (simp add: candidate_def str_of_nat_inj)

definition slug_taken :: "post list \<Rightarrow> string \<Rightarrow> bool" where
  "slug_taken rows s = (find (\<lambda>p. slug p = s) rows \<noteq> None)"

lemma finite_taken_candidates: "finite {k. slug_taken rows (candidate b k)}"
proof -
  have "{k. slug_taken rows (candidate b k)} \<subseteq> candidate b -` (slug ` set rows)"
    by (force simp: slug_taken_def find_None_iff)
  moreover have "finite (candidate b -` (slug ` set rows))"
    by (intro finite_vimageI) (auto simp: inj_on_def dest: candidate_inj)
  ultimately show ?thesis by (rule finite_subset)
qed

function slug_loop :: "post list \<Rightarrow> string \<Rightarrow> string \<Rightarrow> nat \<Rightarrow> string" where
  "slug_loop rows base_slug s counter =
     (if slug_taken rows s then slug_loop rows base_slug (candidate base_slug counter) (counter + 1)
      else s)"
  by pat_completeness auto
termination
proof (relation "measure (\<lambda>(rows, b, s, c).
    card {k. c \<le> k \<and> slug_taken rows (candidate b k)} + (if slug_taken rows s then 1 else 0))",
    goal_cases)
  case 1
  show ?case by simp
next
  case (2 rows b s c)
  let ?S = "\<lambda>c. {k. c \<le> k \<and> slug_taken rows (candidate b k)}"
  have fin: "finite (?S c)"
    by (rule finite_subset [OF _ finite_taken_candidates [of rows b]]) auto
  have "?S c = (if slug_taken rows (candidate b c) then {c} else {}) \<union> ?S (c + 1)"
    by (auto simp: Suc_le_eq le_less)
  moreover have "c \<notin> ?S (c + 1)" by simp
  moreover have "finite (?S (c + 1))"
    by (rule finite_subset [OF _ fin]) auto
  ultimately have "card (?S c) = card (?S (c + 1)) + (if slug_taken rows (candidate b c) then 1 else 0)"
    by (cases "slug_taken rows (candidate b c)") simp_all
  with 2 show ?case by simp
qed

declare slug_loop.simps [simp del]

definition generate_slug :: "(string \<Rightarrow> string) \<Rightarrow> string \<Rightarrow> post list \<Rightarrow> string" where
  "generate_slug slugify t rows = slug_loop rows (slugify t) (slugify t) 1"


section \<open>Tags\<close>

text \<open>
  \<open>Tag.get_or_create\<close> runs in the session of the request. \<open>db.session.add(tag)\<close> puts the
  new tag among the session's pending objects; the next query or the commit flushes them
  (the session of the application flushes before every query), and the insert of a tag
  whose \<open>name\<close> or \<open>slug\<close> another row has violates the \<open>unique=True\<close> of lines 106 and
  107. \<open>tag_rows\<close> is the table as the transaction sees it, \<open>pending\<close> the tags added and
  not yet flushed. A tag carries from its creation the primary key that its insert gives
  it (one more than the largest in the table), so that a \<open>tag\<close> value names one object.
\<close>

record session =
  tag_rows :: "tag list"
  pending :: "tag list"

fun insert_tags :: "tag list \<Rightarrow> tag list \<Rightarrow> failure + tag list" where
  "insert_tags rows [] = Inr rows"
| "insert_tags rows (t # ts) =
     (if list_ex (\<lambda>r. tag_name r = tag_name t \<or> tag_slug r = tag_slug t \<or> tag_id r = tag_id t) rows
      then Inl IntegrityError
      else insert_tags (rows @ [t]) ts)"

definition flush :: "session \<Rightarrow> failure + session" where
  "flush s =
     (case insert_tags (tag_rows s) (pending s) of
        Inl e \<Rightarrow> Inl e
      | Inr rows \<Rightarrow> Inr \<lparr>tag_rows = rows, pending = []\<rparr>)"

definition get_or_create ::
  "(string \<Rightarrow> string) \<Rightarrow> string \<Rightarrow> session \<Rightarrow> failure + (tag \<times> session)" where
  "get_or_create slugify name s =
     (case flush s of
        Inl e \<Rightarrow> Inl e
      | Inr s' \<Rightarrow>
          (case find (\<lambda>t. tag_name t = strip (lower name)) (tag_rows s') of
             Some tag \<Rightarrow> Inr (tag, s')
           | None \<Rightarrow>
               (let tag = \<lparr>tag_id = next_id (map tag_id (tag_rows s')),
                           tag_name = strip (lower name), tag_slug = slugify name\<rparr>
                in Inr (tag, s'\<lparr>pending := pending s' @ [tag]\<rparr>))))"

text \<open>
  The tag loop of \<open>create_post\<close> and \<open>edit_post\<close> (lines 243 to 247 and 300 to 304):
  the names are the stripped, non-empty pieces of the field; the result is \<open>post.tags\<close>.
\<close>

definition tag_names :: "string \<Rightarrow> string list" where
  "tag_names field = filter (\<lambda>t. t \<noteq> []) (map strip (split CHR '','' field))"

fun append_tags ::
  "(string \<Rightarrow> string) \<Rightarrow> string list \<Rightarrow> tag list \<Rightarrow> session \<Rightarrow> failure + (tag list \<times> session)" where
  "append_tags slugify [] acc s = Inr (acc, s)"
| "append_tags slugify (n # ns) acc s =
     (case get_or_create slugify n s of
        Inl e \<Rightarrow> Inl e
      | Inr (tag, s') \<Rightarrow> append_tags slugify ns (acc @ [tag]) s')"


section \<open>Uploads\<close>

definition ALLOWED_EXTENSIONS :: "string list" where
  "ALLOWED_EXTENSIONS = [''png'', ''jpg'', ''jpeg'', ''gif'', ''webp'']"

definition allowed_file :: "string \<Rightarrow> bool" where
  "allowed_file filename =
     (CHR ''.'' \<in> set filename \<and> lower (rsplit_dot_1 filename) \<in> set ALLOWED_EXTENSIONS)"

text \<open>
  \<open>save_image\<close>. The file is the upload's client file name, \<open>None\<close> when there is no
  upload; an upload with an empty file name is falsy, as \<open>FileStorage\<close> defines it. The
  result is the stored name and the upload folder after \<open>file.save\<close>.
\<close>

definition save_image :: "string option \<Rightarrow> string \<Rightarrow> string set \<Rightarrow> string option \<times> string set" where
  "save_image file hex folder =
     (case file of
        None \<Rightarrow> (None, folder)
      | Some fname \<Rightarrow>
          (if fname \<noteq> [] \<and> allowed_file fname then
             (let ext = lower (rsplit_dot_1 fname);
                  filename = hex @ ''.'' @ ext
              in (Some filename, insert filename folder))
           else (None, folder)))"


section \<open>The post form\<close>

text \<open>
  \<open>PostForm\<close> as submitted (a POST). \<open>form_content\<close> is \<open>None\<close> when the submission carries
  no field \<open>content\<close>, and \<open>form_cover_image\<close> is the name of the file uploaded, \<open>None\<close>
  when there is none. \<open>CSRFProtect\<close> of \<open>app/__init__.py\<close> answers a POST whose token is
  not valid before any view function runs, so the handlers below, which are the view
  functions, see valid tokens only. The validators are those of \<open>forms.py\<close>:
  \<open>DataRequired\<close> and \<open>Length(min=1, max=200)\<close> on the title, \<open>Length(max=500)\<close> on the
  excerpt, \<open>FileAllowed\<close> on the cover image; \<open>content\<close> has none.
\<close>

record post_form =
  form_title :: string
  form_excerpt :: string
  form_content :: "string option"
  form_cover_image :: "string option"
  form_tags :: string
  form_is_published :: bool
  form_is_featured :: bool

definition endswith :: "string \<Rightarrow> string \<Rightarrow> bool" where
  "endswith s x = (length x \<le> length s \<and> drop (length s - length x) s = x)"

definition file_allowed :: "string option \<Rightarrow> bool" where
  "file_allowed file =
     (case file of
        None \<Rightarrow> True
      | Some fname \<Rightarrow>
          fname = [] \<or>
          list_ex (\<lambda>x. endswith (lower fname) (''.'' @ x)) [''jpg'', ''jpeg'', ''png'', ''gif'', ''webp''])"

definition validate_on_submit :: "post_form \<Rightarrow> bool" where
  "validate_on_submit form =
     (strip (form_title form) \<noteq> [] \<and> 1 \<le> length (form_title form) \<and> length (form_title form) \<le> 200 \<and>
      length (form_excerpt form) \<le> 500 \<and>
      file_allowed (form_cover_image form))"

text \<open>
  What \<open>if x:\<close> takes for true, for a file of the submission (a \<open>FileStorage\<close> with a
  file name) and for a stored name (a \<open>str\<close> that is not empty).
\<close>

definition truthy :: "string option \<Rightarrow> bool" where
  "truthy x = (case x of None \<Rightarrow> False | Some n \<Rightarrow> n \<noteq> [])"


section \<open>The admin handlers of posts\<close>

text \<open>\<open>@login_required\<close>, then \<open>if not current_user.is_admin: abort(403)\<close>.\<close>

definition admin_required :: "user option \<Rightarrow> failure option" where
  "admin_required current_user =
     (case current_user of
        None \<Rightarrow> Some Unauthorized
      | Some u \<Rightarrow> if is_admin u then None else Some Forbidden)"

definition get_or_404 :: "nat \<Rightarrow> post list \<Rightarrow> post option" where
  "get_or_404 pid rows = find (\<lambda>p. post_id p = pid) rows"

text \<open>
  The update that the commit writes for a post of the session: the row of its primary
  key; \<open>updated_at\<close> follows (\<open>onupdate\<close>) when a column changed.
\<close>

definition stored :: "nat \<Rightarrow> post \<Rightarrow> post \<Rightarrow> post" where
  "stored t old new = (if new = old then old else new\<lparr>updated_at := t\<rparr>)"

definition update_row :: "post \<Rightarrow> post list \<Rightarrow> post list" where
  "update_row p rows = map (\<lambda>r. if post_id r = post_id p then p else r) rows"

definition created_flash :: "(string \<times> string) list" where
  "created_flash = [(''Post created successfully!'', ''success'')]"

definition updated_flash :: "(string \<times> string) list" where
  "updated_flash = [(''Post updated successfully!'', ''success'')]"

definition deleted_flash :: "(string \<times> string) list" where
  "deleted_flash = [(''Post deleted successfully!'', ''success'')]"

text \<open>
  \<open>create_post\<close>, lines 216 to 262, for a submitted form. The post is added to the session
  at line 253, so the commit writes it, the tags still pending and one association row
  for each element of \<open>post.tags\<close>: a tag that stands twice there gives the pair twice,
  against the primary key of \<open>post_tags\<close>, and a post whose \<open>content\<close> is \<open>None\<close> is
  against \<open>nullable=False\<close> (line 58). The columns left out of the constructor take their
  defaults at the insert.
\<close>

definition create_post ::
  "(string \<Rightarrow> string) \<Rightarrow> ctx \<Rightarrow> user option \<Rightarrow> post_form \<Rightarrow> app \<Rightarrow> failure + (reply \<times> app)" where
  "create_post slugify cx current_user form a =
     (case admin_required current_user of
        Some e \<Rightarrow> Inl e
      | None \<Rightarrow>
          if \<not> validate_on_submit form then Inr (Render ''admin/post_form.html'', a)
          else
            (let post0 = \<lparr>post_id = next_id (map post_id (posts a)),
                          title = form_title form,
                          slug = generate_slug slugify (form_title form) (posts a),
                          excerpt = form_excerpt form,
                          content = form_content form,
                          cover_image = None,
                          is_published = form_is_published form,
                          is_featured = form_is_featured form,
                          views = Some 0,
                          created_at = utcnow cx,
                          updated_at = utcnow cx,
                          published_at = None,
                          author_id = (case current_user of Some u \<Rightarrow> user_id u | None \<Rightarrow> 0)\<rparr>;
                 (filename, folder) = save_image (form_cover_image form) (uuid4_hex cx) (uploads a);
                 post1 = (case filename of Some f \<Rightarrow> post0\<lparr>cover_image := Some f\<rparr> | None \<Rightarrow> post0)
             in case append_tags slugify (tag_names (form_tags form)) []
                       \<lparr>tag_rows = tags a, pending = []\<rparr> of
                  Inl e \<Rightarrow> Inl e
                | Inr (post_tag_list, s) \<Rightarrow>
                    (let post2 = (if form_is_published form
                                  then post1\<lparr>published_at := Some (utcnow cx)\<rparr> else post1)
                     in case flush s of
                          Inl e \<Rightarrow> Inl e
                        | Inr s' \<Rightarrow>
                            if \<not> distinct (map tag_id post_tag_list) then Inl IntegrityError
                            else if content post2 = None then Inl IntegrityError
                            else Inr (Redirect ''blog.admin_posts'' created_flash,
                                      a\<lparr>posts := posts a @ [post2],
                                        tags := tag_rows s',
                                        post_tags := post_tags a @
                                          map (\<lambda>t. (post_id post2, tag_id t)) post_tag_list,
                                        uploads := folder\<rparr>))))"

text \<open>
  \<open>edit_post\<close>, lines 267 to 318, for a submitted form. \<open>PostForm(obj=post)\<close> (line 273)
  gives a field that the submission does not fill the value that the post has: without a
  field \<open>content\<close> the content stays, and without a file \<open>form.cover_image.data\<close> is the
  stored name of the post's image, a \<open>str\<close>, on which \<open>save_image\<close> raises at
  \<open>file.filename\<close>. \<open>post.tags.clear()\<close> deletes the association rows of the post, and
  the commit writes one row for each element of \<open>post.tags\<close>, so that a tag that stands
  twice there is against the primary key of \<open>post_tags\<close>, as in \<open>create_post\<close>.
\<close>

definition edit_post ::
  "(string \<Rightarrow> string) \<Rightarrow> ctx \<Rightarrow> user option \<Rightarrow> nat \<Rightarrow> post_form \<Rightarrow> app \<Rightarrow> failure + (reply \<times> app)" where
  "edit_post slugify cx current_user pid form a =
     (case admin_required current_user of
        Some e \<Rightarrow> Inl e
      | None \<Rightarrow>
          (case get_or_404 pid (posts a) of
             None \<Rightarrow> Inl NotFound
           | Some post \<Rightarrow>
               if \<not> validate_on_submit form then Inr (Render ''admin/post_form.html'', a)
               else
                 (let post1 = post\<lparr>title := form_title form,
                                   excerpt := form_excerpt form,
                                   content := (case form_content form of
                                                 None \<Rightarrow> content post
                                               | Some body \<Rightarrow> Some body),
                                   is_featured := form_is_featured form\<rparr>;
                      was_published = is_published post1;
                      post2 = post1\<lparr>is_published := form_is_published form\<rparr>;
                      post3 = (if \<not> was_published \<and> form_is_published form
                               then post2\<lparr>published_at := Some (utcnow cx)\<rparr> else post2)
                  in if \<not> truthy (form_cover_image form) \<and> truthy (cover_image post)
                     then Inl AttributeError
                     else
                       (let (filename, saved) =
                              save_image (form_cover_image form) (uuid4_hex cx) (uploads a);
                            folder = (case filename of
                                        None \<Rightarrow> saved
                                      | Some f \<Rightarrow>
                                          (case cover_image post3 of
                                             None \<Rightarrow> saved
                                           | Some old \<Rightarrow> if old = [] then saved else saved - {old}));
                            post4 = (case filename of
                                       Some f \<Rightarrow> post3\<lparr>cover_image := Some f\<rparr>
                                     | None \<Rightarrow> post3)
                        in case append_tags slugify (tag_names (form_tags form)) []
                                  \<lparr>tag_rows = tags a, pending = []\<rparr> of
                             Inl e \<Rightarrow> Inl e
                           | Inr (post_tag_list, s) \<Rightarrow>
                               (case flush s of
                                  Inl e \<Rightarrow> Inl e
                                | Inr s' \<Rightarrow>
                                    if \<not> distinct (map tag_id post_tag_list) then Inl IntegrityError
                                    else Inr (Redirect ''blog.admin_posts'' updated_flash,
                                              a\<lparr>posts := update_row (stored (utcnow cx) post post4) (posts a),
                                                tags := tag_rows s',
                                                post_tags :=
                                                  filter (\<lambda>l. fst l \<noteq> pid) (post_tags a) @
                                                  map (\<lambda>t. (pid, tag_id t)) post_tag_list,
                                                uploads := folder\<rparr>))))))"

text \<open>
  \<open>delete_post\<close>, lines 323 to 340. The delete of a post removes its rows of the
  association table (the relationship \<open>tags\<close> has \<open>secondary=post_tags\<close>) and the row of
  the post; no cascade reaches the tags.
\<close>

definition delete_post :: "user option \<Rightarrow> nat \<Rightarrow> app \<Rightarrow> failure + (reply \<times> app)" where
  "delete_post current_user pid a =
     (case admin_required current_user of
        Some e \<Rightarrow> Inl e
      | None \<Rightarrow>
          (case get_or_404 pid (posts a) of
             None \<Rightarrow> Inl NotFound
           | Some post \<Rightarrow>
               (let folder = (case cover_image post of
                                None \<Rightarrow> uploads a
                              | Some f \<Rightarrow> if f = [] then uploads a else uploads a - {f})
                in Inr (Redirect ''blog.admin_posts'' deleted_flash,
                        a\<lparr>posts := filter (\<lambda>p. post_id p \<noteq> pid) (posts a),
                          post_tags := filter (\<lambda>l. fst l \<noteq> pid) (post_tags a),
                          uploads := folder\<rparr>))))"

text \<open>\<open>toggle_publish\<close>, lines 345 to 360.\<close>

definition toggle_publish :: "ctx \<Rightarrow> user option \<Rightarrow> nat \<Rightarrow> app \<Rightarrow> failure + (reply \<times> app)" where
  "toggle_publish cx current_user pid a =
     (case admin_required current_user of
        Some e \<Rightarrow> Inl e
      | None \<Rightarrow>
          (case get_or_404 pid (posts a) of
             None \<Rightarrow> Inl NotFound
           | Some post \<Rightarrow>
               (let post1 = post\<lparr>is_published := \<not> is_published post\<rparr>;
                    post2 = (if is_published post1 \<and> published_at post1 = None
                             then post1\<lparr>published_at := Some (utcnow cx)\<rparr> else post1);
                    status = (if is_published post2 then ''published'' else ''unpublished'')
                in Inr (Redirect ''blog.admin_posts''
                          [(''Post '' @ status @ '' successfully!'', ''success'')],
                        a\<lparr>posts := update_row (stored (utcnow cx) post post2) (posts a)\<rparr>))))"


section \<open>Viewing a post\<close>

text \<open>
  \<open>Post.increment_views\<close> with its commit, and \<open>view_post\<close>, lines 76 to 96: the first
  published post of the slug, or 404. \<open>view_requests\<close> is one view after another, each
  with the clock reading of its request.
\<close>

definition views_or_0 :: "post \<Rightarrow> int" where
  "views_or_0 p = (case views p of None \<Rightarrow> 0 | Some v \<Rightarrow> v)"

definition increment_views :: "nat \<Rightarrow> post \<Rightarrow> post list \<Rightarrow> post list" where
  "increment_views t p rows = update_row (stored t p (p\<lparr>views := Some (views_or_0 p + 1)\<rparr>)) rows"

definition first_published :: "string \<Rightarrow> post list \<Rightarrow> post option" where
  "first_published s rows = find (\<lambda>p. slug p = s \<and> is_published p) rows"

definition view_post :: "ctx \<Rightarrow> string \<Rightarrow> app \<Rightarrow> failure + (reply \<times> app)" where
  "view_post cx s a =
     (case first_published s (posts a) of
        None \<Rightarrow> Inl NotFound
      | Some post \<Rightarrow> Inr (Render ''post.html'', a\<lparr>posts := increment_views (utcnow cx) post (posts a)\<rparr>))"

fun view_requests :: "ctx list \<Rightarrow> string \<Rightarrow> app \<Rightarrow> failure + app" where
  "view_requests [] s a = Inr a"
| "view_requests (cx # cxs) s a =
     (case view_post cx s a of Inl e \<Rightarrow> Inl e | Inr (r, a') \<Rightarrow> view_requests cxs s a')"


section \<open>Login\<close>

text \<open>
  \<open>login\<close> of \<open>auth/routes.py\<close>. The validators of \<open>LoginForm\<close> are those of
  \<open>app/auth/forms.py\<close>; what \<open>form.validate_on_submit()\<close> returns is the field
  \<open>login_validates\<close> of the form. \<open>check_password_hash\<close> of werkzeug is a parameter. The
  session is the user logged in, if any; the result is the answer and the session after.
\<close>

record login_form =
  form_username :: string
  form_password :: string
  form_remember_me :: bool
  login_validates :: bool

definition next_page :: "string option \<Rightarrow> string" where
  "next_page arg =
     (case arg of
        None \<Rightarrow> ''blog.admin_dashboard''
      | Some u \<Rightarrow> if u = [] then ''blog.admin_dashboard''
                  else if hd u = CHR ''/'' then u else ''blog.admin_dashboard'')"

definition login ::
  "(string \<Rightarrow> string \<Rightarrow> bool) \<Rightarrow> user option \<Rightarrow> login_form \<Rightarrow> string option \<Rightarrow> user list
     \<Rightarrow> reply \<times> user option" where
  "login check_password_hash current_user form arg rows =
     (case current_user of
        Some u \<Rightarrow> (Redirect ''blog.admin_dashboard'' [], current_user)
      | None \<Rightarrow>
          if \<not> login_validates form then (Render ''auth/login.html'', None)
          else
            (case find (\<lambda>u. username u = form_username form) rows of
               None \<Rightarrow> (Redirect ''auth.login'' [(''Invalid username or password'', ''error'')], None)
             | Some u \<Rightarrow>
                 if \<not> check_password_hash (password_hash u) (form_password form)
                 then (Redirect ''auth.login'' [(''Invalid username or password'', ''error'')], None)
                 else if \<not> is_admin u
                 then (Redirect ''auth.login''
                         [(''Access denied. Admin privileges required.'', ''error'')], None)
                 else (Redirect (next_page arg) [(''Welcome back!'', ''success'')], Some u)))"


section \<open>Requests in sequence, and the data of the examples\<close>

text \<open>The next request runs on the tables that the last one left; a failure ends the run.\<close>

definition and_then ::
  "failure + (reply \<times> app) \<Rightarrow> (app \<Rightarrow> failure + (reply \<times> app)) \<Rightarrow> failure + (reply \<times> app)" where
  "and_then r f = (case r of Inl e \<Rightarrow> Inl e | Inr (x, a) \<Rightarrow> f a)"

text \<open>
  The administrator that \<open>create_app\<close> inserts, a user without the flag, the tables
  after start-up, and a form with every field there and empty and no file.
\<close>

definition admin :: user where
  "admin = \<lparr>user_id = 1, username = ''admin'', email = ''admin@example.com'',
             password_hash = ''hash-of-admin123'', is_admin = True\<rparr>"

definition reader :: user where
  "reader = \<lparr>user_id = 2, username = ''reader'', email = ''reader@example.com'',
              password_hash = ''hash-of-secret'', is_admin = False\<rparr>"

definition fresh_app :: app where
  "fresh_app = \<lparr>users = [admin], posts = [], tags = [], post_tags = [], uploads = {}\<rparr>"

definition blank_form :: post_form where
  "blank_form = \<lparr>form_title = [], form_excerpt = [], form_content = Some [],
                  form_cover_image = None, form_tags = [], form_is_published = False,
                  form_is_featured = False\<rparr>"

definition at_time :: "nat \<Rightarrow> ctx" where
  "at_time t = \<lparr>utcnow = t, uuid4_hex = ''0123456789abcdef0123456789abcdef''\<rparr>"

definition hello_post :: "nat \<Rightarrow> string \<Rightarrow> post" where
  "hello_post i s = \<lparr>post_id = i, title = ''Hello'', slug = s, excerpt = [], content = Some [],
       cover_image = None, is_published = False, is_featured = False, views = Some 0,
       created_at = i, updated_at = i, published_at = None, author_id = 1\<rparr>"


text \<open>
  A published post whose counter is unset, a tag that only the post of id 1 has, and the
  login of the user \<open>reader\<close> with the right password (the hash check of the examples
  compares with \<open>hash-of-\<close> and the password).
\<close>

definition unviewed_app :: app where
  "unviewed_app = fresh_app\<lparr>posts := [(hello_post 1 ''hello'')\<lparr>is_published := True, views := None\<rparr>]\<rparr>"

definition tagged_app :: app where
  "tagged_app = fresh_app\<lparr>posts := [hello_post 1 ''hello'', hello_post 2 ''hello-1''],
                          tags := [\<lparr>tag_id = 1, tag_name = ''python'', tag_slug = ''python''\<rparr>],
                          post_tags := [(1, 1)]\<rparr>"

definition example_check :: "string \<Rightarrow> string \<Rightarrow> bool" where
  "example_check h pw = (h = ''hash-of-'' @ pw)"

definition reader_login :: login_form where
  "reader_login = \<lparr>form_username = ''reader'', form_password = ''secret'',
                    form_remember_me = False, login_validates = True\<rparr>"


definition one_post_app :: app where
  "one_post_app = fresh_app\<lparr>posts := [hello_post 1 ''hello'']\<rparr>"

text \<open>The tags that the names ``web-dev'' and ``Web Dev'' make, one after the other.\<close>

definition hyphen_tag :: tag where
  "hyphen_tag = \<lparr>tag_id = 1, tag_name = ''web-dev'', tag_slug = ''web-dev''\<rparr>"

definition space_tag :: tag where
  "space_tag = \<lparr>tag_id = 2, tag_name = ''web dev'', tag_slug = ''web-dev''\<rparr>"


section \<open>Site settings: set, then get\<close>

lemma find_map_update:
  assumes "find P rows = Some s" and "\<And>r. P (f r) = P r"
  shows "find P (map f rows) = Some (f s)"
  using assms by (induction rows) (auto split: if_splits)

lemma find_append_new:
  assumes "find P rows = None" and "P s"
  shows "find P (rows @ [s]) = Some s"
  using assms by (induction rows) (auto split: if_splits)

text \<open>
  C9. Whatever the table holds and whatever the default, \<open>get(k, d)\<close> right after
  \<open>set(k, v)\<close> returns \<open>v\<close>; and \<open>get\<close> of a key that no row has returns the default.
\<close>

theorem settings_set_get:
  "settings_get k d (snd (settings_set k v now rows)) = v \<and>
   (list_all (\<lambda>r. setting_key r \<noteq> k) rows \<longrightarrow> settings_get k d rows = d)"
proof (intro conjI impI)
  show "settings_get k d (snd (settings_set k v now rows)) = v"
  proof (cases "settings_by_key k rows")
    case None
    then have "find (\<lambda>r. setting_key r = k)
        (rows @ [\<lparr>setting_id = next_id (map setting_id rows), setting_key = k,
                   setting_value = v, setting_updated_at = now\<rparr>])
      = Some \<lparr>setting_id = next_id (map setting_id rows), setting_key = k,
               setting_value = v, setting_updated_at = now\<rparr>"
      unfolding settings_by_key_def by (intro find_append_new) simp_all
    with None show ?thesis
      by (simp add: settings_get_def settings_set_def settings_by_key_def Let_def)
  next
    case (Some s)
    let ?f = "\<lambda>r. if setting_id r = setting_id s then
                      (if setting_value r = v then r
                       else r\<lparr>setting_value := v, setting_updated_at := now\<rparr>)
                    else r"
    from Some have "find (\<lambda>r. setting_key r = k) (map ?f rows) = Some (?f s)"
      unfolding settings_by_key_def by (intro find_map_update) simp_all
    with Some show ?thesis
      by (simp add: settings_get_def settings_set_def settings_by_key_def Let_def)
  qed
next
  assume "list_all (\<lambda>r. setting_key r \<noteq> k) rows"
  then have "settings_by_key k rows = None"
    by (simp add: settings_by_key_def find_None_iff list_all_iff)
  then show "settings_get k d rows = d"
    by (simp add: settings_get_def)
qed

theorem settings_set_get_witness:
  "settings_get ''about_title'' (Some ''Welcome to my blog'')
     (snd (settings_set ''about_title'' (Some ''Hello'') 7
        [\<lparr>setting_id = 1, setting_key = ''about_title'', setting_value = Some ''Old'',
          setting_updated_at = 3\<rparr>])) = Some ''Hello'' \<and>
   list_all (\<lambda>r. setting_key r \<noteq> ''github_url'')
     [\<lparr>setting_id = 1, setting_key = ''about_title'', setting_value = Some ''Old'',
       setting_updated_at = 3\<rparr>] \<and>
   settings_get ''github_url'' (Some [])
     [\<lparr>setting_id = 1, setting_key = ''about_title'', setting_value = Some ''Old'',
       setting_updated_at = 3\<rparr>] = Some []"
proof -
  let ?rows = "[\<lparr>setting_id = 1, setting_key = ''about_title'', setting_value = Some ''Old'',
                 setting_updated_at = 3\<rparr>]"
  have h: "list_all (\<lambda>r. setting_key r \<noteq> ''github_url'') ?rows" by simp
  from settings_set_get [of "''about_title''" "Some ''Welcome to my blog''" "Some ''Hello''" 7 ?rows]
  have a: "settings_get ''about_title'' (Some ''Welcome to my blog'')
     (snd (settings_set ''about_title'' (Some ''Hello'') 7 ?rows)) = Some ''Hello''"
    by (rule conjunct1)
  from settings_set_get [of "''github_url''" "Some []" None 0 ?rows] h
  have b: "settings_get ''github_url'' (Some []) ?rows = Some []"
    by blast
  from a h b show ?thesis by (intro conjI)
qed



section \<open>The slug assigned at creation\<close>

lemma slug_taken_iff: "slug_taken rows s \<longleftrightarrow> s \<in> set (map slug rows)"
  by (force simp: slug_taken_def find_None_iff)

lemma slug_loop_free: "\<not> slug_taken rows s \<Longrightarrow> slug_loop rows b s c = s"
  by (subst slug_loop.simps) simp

lemma slug_loop_taken:
  "slug_taken rows s \<Longrightarrow> slug_loop rows b s c = slug_loop rows b (candidate b c) (c + 1)"
  by (subst slug_loop.simps) simp

lemma slug_loop_result_free: "\<not> slug_taken rows (slug_loop rows b s c)"
proof (induction rows b s c rule: slug_loop.induct)
  case (1 rows b s c)
  then show ?case
    by (cases "slug_taken rows s") (simp_all add: slug_loop_free slug_loop_taken)
qed

lemma slug_loop_first:
  "slug_taken rows s \<Longrightarrow>
   \<exists>k\<ge>c. slug_loop rows b s c = candidate b k \<and>
          (\<forall>j. c \<le> j \<and> j < k \<longrightarrow> slug_taken rows (candidate b j))"
proof (induction rows b s c rule: slug_loop.induct)
  case (1 rows b s c)
  show ?case
  proof (cases "slug_taken rows (candidate b c)")
    case False
    with "1.prems" have "slug_loop rows b s c = candidate b c"
      by (simp add: slug_loop_taken slug_loop_free)
    then show ?thesis by (intro exI [of _ c]) auto
  next
    case True
    from "1.IH" [OF "1.prems" True] obtain k where k: "c + 1 \<le> k"
      "slug_loop rows b (candidate b c) (c + 1) = candidate b k"
      "\<forall>j. c + 1 \<le> j \<and> j < k \<longrightarrow> slug_taken rows (candidate b j)"
      by blast
    have "\<forall>j. c \<le> j \<and> j < k \<longrightarrow> slug_taken rows (candidate b j)"
    proof (intro allI impI)
      fix j assume "c \<le> j \<and> j < k"
      then consider "j = c" | "c + 1 \<le> j \<and> j < k" by linarith
      then show "slug_taken rows (candidate b j)"
        using True k(3) by cases auto
    qed
    with k "1.prems" show ?thesis
      by (intro exI [of _ k]) (simp add: slug_loop_taken)
  qed
qed

lemma candidate_1: "candidate b (Suc 0) = b @ ''-1''"
proof -
  have "str_of_nat (Suc 0) = ''1''" by code_simp
  then show ?thesis by (simp add: candidate_def)
qed

lemma generate_slug_free: "generate_slug slugify t rows \<notin> set (map slug rows)"
  using slug_loop_result_free [of rows "slugify t" "slugify t" 1]
  unfolding generate_slug_def slug_taken_iff .

lemma generate_slug_unused_base:
  "slugify t \<notin> set (map slug rows) \<Longrightarrow> generate_slug slugify t rows = slugify t"
  by (simp add: generate_slug_def slug_loop_free slug_taken_iff)

lemma generate_slug_used_base:
  assumes "slugify t \<in> set (map slug rows)"
  shows "\<exists>k\<ge>1. generate_slug slugify t rows = candidate (slugify t) k \<and>
           (\<forall>j. 1 \<le> j \<and> j < k \<longrightarrow> candidate (slugify t) j \<in> set (map slug rows))"
  using slug_loop_first [of rows "slugify t" 1 "slugify t"] assms
  unfolding generate_slug_def slug_taken_iff by blast

lemma generate_slug_second:
  assumes "slugify t \<notin> set (map slug rows)" and "slugify t @ ''-1'' \<notin> set (map slug rows)"
    and "slug p = slugify t"
  shows "generate_slug slugify t (rows @ [p]) = slugify t @ ''-1''"
proof -
  have taken: "slug_taken (rows @ [p]) (slugify t)"
    using assms(3) by (simp add: slug_taken_iff)
  have "\<not> slug_taken (rows @ [p]) (candidate (slugify t) 1)"
    using assms by (simp add: slug_taken_iff candidate_1)
  then show ?thesis
    unfolding generate_slug_def
    by (simp add: slug_loop_taken [OF taken] slug_loop_free candidate_1)
qed

text \<open>What an accepted creation stores.\<close>

lemma create_post_appends:
  assumes "create_post slugify cx cu form a = Inr (Redirect e fl, a')"
  shows "\<exists>p. posts a' = posts a @ [p] \<and> slug p = generate_slug slugify (form_title form) (posts a) \<and>
           title p = form_title form \<and> content p = form_content form \<and>
           published_at p = (if form_is_published form then Some (utcnow cx) else None)"
  using assms
  by (auto simp: create_post_def Let_def split: option.splits if_splits sum.splits prod.splits)

text \<open>
  C2, as amended. \<open>generate_slug\<close> returns the slugified title when no post has it, and
  otherwise the first of \<open>base-1\<close>, \<open>base-2\<close>, ... that no post has; the slug assigned is
  the slug of no post that was there. Two posts created one after the other with the same
  title get two different slugs, both new; they are \<open>s\<close> and \<open>s-1\<close> when no post had
  \<open>s\<close> or \<open>s-1\<close> before.
\<close>

theorem generate_slug_first_unused:
  "(slugify t \<notin> set (map slug rows) \<longrightarrow> generate_slug slugify t rows = slugify t) \<and>
   (slugify t \<in> set (map slug rows) \<longrightarrow>
      (\<exists>k\<ge>1. generate_slug slugify t rows = slugify t @ ''-'' @ str_of_nat k \<and>
         (\<forall>j. 1 \<le> j \<and> j < k \<longrightarrow> slugify t @ ''-'' @ str_of_nat j \<in> set (map slug rows)))) \<and>
   generate_slug slugify t rows \<notin> set (map slug rows) \<and>
   (create_post slugify cx1 u1 form1 a = Inr (Redirect e1 fl1, a1) \<and>
    create_post slugify cx2 u2 form2 a1 = Inr (Redirect e2 fl2, a2) \<and>
    form_title form1 = t \<and> form_title form2 = t \<and> rows = posts a \<longrightarrow>
      (\<exists>p1 p2. posts a2 = rows @ [p1, p2] \<and> slug p1 \<noteq> slug p2 \<and>
         slug p1 \<notin> set (map slug rows) \<and> slug p2 \<notin> set (map slug rows) \<and>
         (slugify t \<notin> set (map slug rows) \<and> slugify t @ ''-1'' \<notin> set (map slug rows) \<longrightarrow>
            slug p1 = slugify t \<and> slug p2 = slugify t @ ''-1'')))"
proof (intro conjI impI)
  show "generate_slug slugify t rows \<notin> set (map slug rows)"
    by (rule generate_slug_free)
next
  assume "slugify t \<notin> set (map slug rows)"
  then show "generate_slug slugify t rows = slugify t"
    by (rule generate_slug_unused_base)
next
  assume "slugify t \<in> set (map slug rows)"
  from generate_slug_used_base [of slugify t rows] this
  show "\<exists>k\<ge>1. generate_slug slugify t rows = slugify t @ ''-'' @ str_of_nat k \<and>
         (\<forall>j. 1 \<le> j \<and> j < k \<longrightarrow> slugify t @ ''-'' @ str_of_nat j \<in> set (map slug rows))"
    by (simp only: candidate_def)
next
  assume h: "create_post slugify cx1 u1 form1 a = Inr (Redirect e1 fl1, a1) \<and>
    create_post slugify cx2 u2 form2 a1 = Inr (Redirect e2 fl2, a2) \<and>
    form_title form1 = t \<and> form_title form2 = t \<and> rows = posts a"
  from h create_post_appends [of slugify cx1 u1 form1 a e1 fl1 a1]
  obtain p1 where p1: "posts a1 = rows @ [p1]" "slug p1 = generate_slug slugify t rows"
    by auto
  from h create_post_appends [of slugify cx2 u2 form2 a1 e2 fl2 a2]
  obtain p2 where p2: "posts a2 = posts a1 @ [p2]" "slug p2 = generate_slug slugify t (posts a1)"
    by auto
  have f1: "slug p1 \<notin> set (map slug rows)"
    using p1(2) generate_slug_free [of slugify t rows] by simp
  have f2: "slug p2 \<notin> set (map slug (rows @ [p1]))"
    using p1(1) p2(2) generate_slug_free [of slugify t "rows @ [p1]"] by simp
  have fresh: "slug p1 = slugify t \<and> slug p2 = slugify t @ ''-1''"
    if "slugify t \<notin> set (map slug rows) \<and> slugify t @ ''-1'' \<notin> set (map slug rows)"
  proof -
    from that have a: "slug p1 = slugify t"
      using p1(2) by (simp add: generate_slug_unused_base)
    from that a have "generate_slug slugify t (rows @ [p1]) = slugify t @ ''-1''"
      by (intro generate_slug_second) simp_all
    with a p1(1) p2(2) show ?thesis by simp
  qed
  show "\<exists>p1 p2. posts a2 = rows @ [p1, p2] \<and> slug p1 \<noteq> slug p2 \<and>
         slug p1 \<notin> set (map slug rows) \<and> slug p2 \<notin> set (map slug rows) \<and>
         (slugify t \<notin> set (map slug rows) \<and> slugify t @ ''-1'' \<notin> set (map slug rows) \<longrightarrow>
            slug p1 = slugify t \<and> slug p2 = slugify t @ ''-1'')"
  proof (rule exI [of _ p1], rule exI [of _ p2], intro conjI impI)
    show "posts a2 = rows @ [p1, p2]" using p1(1) p2(1) by simp
    show "slug p1 \<noteq> slug p2" using f2 by auto
    show "slug p1 \<notin> set (map slug rows)" by (rule f1)
    show "slug p2 \<notin> set (map slug rows)" using f2 by simp
  next
    assume "slugify t \<notin> set (map slug rows) \<and> slugify t @ ''-1'' \<notin> set (map slug rows)"
    from fresh [OF this] show "slug p1 = slugify t" "slug p2 = slugify t @ ''-1''" by simp_all
  qed
qed

theorem generate_slug_first_unused_witness:
  "generate_slug slugify_ascii ''Hello'' [] = slugify_ascii ''Hello'' \<and>
   slugify_ascii ''Hello'' \<in> set (map slug [hello_post 1 ''hello'']) \<and>
   (\<exists>k\<ge>1. generate_slug slugify_ascii ''Hello'' [hello_post 1 ''hello'']
            = slugify_ascii ''Hello'' @ ''-'' @ str_of_nat k) \<and>
   create_post slugify_ascii (at_time 1) (Some admin) (blank_form\<lparr>form_title := ''Hello''\<rparr>) fresh_app
     = Inr (Redirect ''blog.admin_posts'' created_flash, fresh_app\<lparr>posts := [hello_post 1 ''hello'']\<rparr>) \<and>
   create_post slugify_ascii (at_time 2) (Some admin) (blank_form\<lparr>form_title := ''Hello''\<rparr>)
       (fresh_app\<lparr>posts := [hello_post 1 ''hello'']\<rparr>)
     = Inr (Redirect ''blog.admin_posts'' created_flash,
            fresh_app\<lparr>posts := [hello_post 1 ''hello'', hello_post 2 ''hello-1'']\<rparr>) \<and>
   (\<exists>p1 p2. [hello_post 1 ''hello'', hello_post 2 ''hello-1''] = [p1, p2] \<and>
      slug p1 = slugify_ascii ''Hello'' \<and> slug p2 = slugify_ascii ''Hello'' @ ''-1'')"
proof -
  let ?f = "blank_form\<lparr>form_title := ''Hello''\<rparr>"
  let ?a1 = "fresh_app\<lparr>posts := [hello_post 1 ''hello'']\<rparr>"
  let ?a2 = "fresh_app\<lparr>posts := [hello_post 1 ''hello'', hello_post 2 ''hello-1'']\<rparr>"
  have s: "slugify_ascii ''Hello'' = ''hello''" by code_simp
  have c1: "create_post slugify_ascii (at_time 1) (Some admin) ?f fresh_app
      = Inr (Redirect ''blog.admin_posts'' created_flash, ?a1)"
    by code_simp
  have c2: "create_post slugify_ascii (at_time 2) (Some admin) ?f ?a1
      = Inr (Redirect ''blog.admin_posts'' created_flash, ?a2)"
    by code_simp
  have t: "form_title ?f = ''Hello''" by (simp add: blank_form_def)
  have e: "posts fresh_app = []" "posts ?a2 = [hello_post 1 ''hello'', hello_post 2 ''hello-1'']"
    by (simp_all add: fresh_app_def)
  have m: "slugify_ascii ''Hello'' \<in> set (map slug [hello_post 1 ''hello''])"
    by (simp add: s hello_post_def)
  note g = generate_slug_first_unused [of slugify_ascii "''Hello''" "[]" "at_time 1" "Some admin" ?f
      fresh_app "''blog.admin_posts''" created_flash ?a1 "at_time 2" "Some admin" ?f
      "''blog.admin_posts''" created_flash ?a2]
  note g' = generate_slug_first_unused [of slugify_ascii "''Hello''" "[hello_post 1 ''hello'']"]
  from g have w1: "generate_slug slugify_ascii ''Hello'' [] = slugify_ascii ''Hello''"
    by simp
  from g' m have w2: "\<exists>k\<ge>1. generate_slug slugify_ascii ''Hello'' [hello_post 1 ''hello'']
            = slugify_ascii ''Hello'' @ ''-'' @ str_of_nat k"
    by blast
  from g c1 c2 t e have w3: "\<exists>p1 p2. [hello_post 1 ''hello'', hello_post 2 ''hello-1''] = [p1, p2] \<and>
      slug p1 = slugify_ascii ''Hello'' \<and> slug p2 = slugify_ascii ''Hello'' @ ''-1''"
    by simp
  from w1 m w2 c1 c2 w3 show ?thesis by (intro conjI)
qed

text \<open>
  The claim as it stands fails where a post already has \<open>s-1\<close>: after a post titled
  ``Hello 1'', two posts titled ``Hello'' get \<open>hello\<close> and \<open>hello-2\<close>.
\<close>

theorem two_posts_counterexample:
  "slugify_ascii ''Hello'' = ''hello'' \<and>
   map_sum id (\<lambda>(r, a). map (\<lambda>p. (title p, slug p)) (posts a))
     (and_then
        (and_then
           (create_post slugify_ascii (at_time 1) (Some admin) (blank_form\<lparr>form_title := ''Hello 1''\<rparr>) fresh_app)
           (create_post slugify_ascii (at_time 2) (Some admin) (blank_form\<lparr>form_title := ''Hello''\<rparr>)))
        (create_post slugify_ascii (at_time 3) (Some admin) (blank_form\<lparr>form_title := ''Hello''\<rparr>)))
   = Inr [(''Hello 1'', ''hello-1''), (''Hello'', ''hello''), (''Hello'', ''hello-2'')]"
  by code_simp




section \<open>Uploads: what \<open>save_image\<close> returns\<close>

lemma rsplit_dot_1_ext:
  assumes "CHR ''.'' \<notin> set ext"
  shows "rsplit_dot_1 (stem @ CHR ''.'' # ext) = ext"
proof -
  have "takeWhile (\<lambda>c. c \<noteq> CHR ''.'') (rev ext @ CHR ''.'' # rev stem) = rev ext"
    using assms by (subst takeWhile_tail) (auto simp: takeWhile_eq_all_conv)
  then show ?thesis by (simp add: rsplit_dot_1_def)
qed

lemma endswith_append: "endswith (xs @ ys) ys"
  by (simp add: endswith_def)

text \<open>
  C5. \<open>save_image\<close> returns \<open>None\<close> when there is no file, when the file name has no dot,
  and when what follows its last dot, in lower case, is not one of png, jpg, jpeg, gif and
  webp; otherwise it returns the generated name, the hex of the uuid, a dot and that
  extension in lower case, and stores the file under it.
\<close>

theorem save_image_result:
  "fst (save_image None hex folder) = None \<and>
   (CHR ''.'' \<notin> set fname \<longrightarrow> fst (save_image (Some fname) hex folder) = None) \<and>
   (CHR ''.'' \<notin> set ext \<and> lower ext \<notin> {''png'', ''jpg'', ''jpeg'', ''gif'', ''webp''} \<longrightarrow>
      fst (save_image (Some (stem @ ''.'' @ ext)) hex folder) = None) \<and>
   (CHR ''.'' \<notin> set ext \<and> lower ext \<in> {''png'', ''jpg'', ''jpeg'', ''gif'', ''webp''} \<longrightarrow>
      save_image (Some (stem @ ''.'' @ ext)) hex folder
        = (Some (hex @ ''.'' @ lower ext), insert (hex @ ''.'' @ lower ext) folder) \<and>
      endswith (hex @ ''.'' @ lower ext) (''.'' @ lower ext))"
proof (intro conjI impI)
  show "fst (save_image None hex folder) = None"
    by (simp add: save_image_def)
next
  assume "CHR ''.'' \<notin> set fname"
  then show "fst (save_image (Some fname) hex folder) = None"
    by (simp add: save_image_def allowed_file_def)
next
  assume "CHR ''.'' \<notin> set ext \<and> lower ext \<notin> {''png'', ''jpg'', ''jpeg'', ''gif'', ''webp''}"
  then show "fst (save_image (Some (stem @ ''.'' @ ext)) hex folder) = None"
    by (simp add: save_image_def allowed_file_def rsplit_dot_1_ext ALLOWED_EXTENSIONS_def)
next
  assume h: "CHR ''.'' \<notin> set ext \<and> lower ext \<in> {''png'', ''jpg'', ''jpeg'', ''gif'', ''webp''}"
  then have "allowed_file (stem @ ''.'' @ ext)"
    by (simp add: allowed_file_def rsplit_dot_1_ext ALLOWED_EXTENSIONS_def)
  with h show "save_image (Some (stem @ ''.'' @ ext)) hex folder
        = (Some (hex @ ''.'' @ lower ext), insert (hex @ ''.'' @ lower ext) folder)"
    by (simp add: save_image_def rsplit_dot_1_ext Let_def)
  show "endswith (hex @ ''.'' @ lower ext) (''.'' @ lower ext)"
    using endswith_append [of hex "''.'' @ lower ext"] by simp
qed

theorem save_image_result_witness:
  "CHR ''.'' \<notin> set ''README'' \<and>
   fst (save_image (Some ''README'') ''0f'' {}) = None \<and>
   CHR ''.'' \<notin> set ''exe'' \<and> lower ''exe'' \<notin> {''png'', ''jpg'', ''jpeg'', ''gif'', ''webp''} \<and>
   fst (save_image (Some ''evil.exe'') ''0f'' {}) = None \<and>
   CHR ''.'' \<notin> set ''PNG'' \<and> lower ''PNG'' \<in> {''png'', ''jpg'', ''jpeg'', ''gif'', ''webp''} \<and>
   save_image (Some ''photo.PNG'') ''0f'' {} = (Some ''0f.png'', {''0f.png''}) \<and>
   endswith ''0f.png'' ''.png''"
proof -
  have l1: "lower ''exe'' = ''exe''" and l2: "lower ''PNG'' = ''png''" by code_simp+
  have h1: "CHR ''.'' \<notin> set ''README''" by simp
  have h2: "CHR ''.'' \<notin> set ''exe'' \<and> lower ''exe'' \<notin> {''png'', ''jpg'', ''jpeg'', ''gif'', ''webp''}"
    by (simp add: l1)
  have h3: "CHR ''.'' \<notin> set ''PNG'' \<and> lower ''PNG'' \<in> {''png'', ''jpg'', ''jpeg'', ''gif'', ''webp''}"
    by (simp add: l2)
  from save_image_result [of "''0f''" "{}" "''README''"] h1
  have w1: "fst (save_image (Some ''README'') ''0f'' {}) = None" by blast
  from save_image_result [of "''0f''" "{}" _ "''exe''" "''evil''"] h2
  have w2: "fst (save_image (Some ''evil.exe'') ''0f'' {}) = None" by simp
  from save_image_result [of "''0f''" "{}" _ "''PNG''" "''photo''"] h3
  have w3: "save_image (Some ''photo.PNG'') ''0f'' {} = (Some ''0f.png'', {''0f.png''}) \<and>
      endswith ''0f.png'' ''.png''" by (simp add: l2)
  from h1 w1 h2 w2 h3 w3 show ?thesis by blast
qed


section \<open>Views\<close>

lemma stored_views:
  "stored t p (p\<lparr>views := Some (views_or_0 p + 1)\<rparr>)
     = p\<lparr>views := Some (views_or_0 p + 1), updated_at := t\<rparr>"
proof -
  have "views (p\<lparr>views := Some (views_or_0 p + 1)\<rparr>) \<noteq> views p"
    by (cases "views p") (simp_all add: views_or_0_def)
  then have "p\<lparr>views := Some (views_or_0 p + 1)\<rparr> \<noteq> p" by metis
  then show ?thesis by (simp add: stored_def)
qed

lemma find_Some_mem: "find P rows = Some p \<Longrightarrow> p \<in> set rows \<and> P p"
  by (induction rows) (auto split: if_splits)

lemma find_update_row:
  assumes "find P rows = Some p" and "post_id p' = post_id p" and "P p'"
  shows "find P (update_row p' rows) = Some p'"
  using assms by (induction rows) (auto simp: update_row_def split: if_splits)

lemma same_id_same_row:
  assumes "distinct (map post_id rows)" and "p \<in> set rows" and "q \<in> set rows"
    and "post_id q = post_id p"
  shows "q = p"
  using assms by (meson distinct_map inj_onD)

lemma update_row_ids: "post_id p' = post_id p \<Longrightarrow> map post_id (update_row p' rows) = map post_id rows"
  by (induction rows) (auto simp: update_row_def)

lemma update_row_all2:
  assumes "distinct (map post_id rows)" and "p \<in> set rows" and "post_id p' = post_id p"
    and "views_or_0 p \<le> views_or_0 p'"
  shows "list_all2 (\<lambda>q q'. views_or_0 q \<le> views_or_0 q' \<and> (post_id q \<noteq> post_id p \<longrightarrow> q' = q))
           rows (update_row p' rows)"
proof -
  have "\<And>q. q \<in> set rows \<Longrightarrow> post_id q = post_id p \<Longrightarrow> q = p"
    using assms(1,2) by (rule same_id_same_row)
  then have "\<And>n. n < length rows \<Longrightarrow> post_id (rows ! n) = post_id p \<Longrightarrow> rows ! n = p"
    by simp
  with assms(3,4) show ?thesis
    by (auto simp: update_row_def list_all2_map2 intro!: list_all2_all_nthI)
qed

text \<open>One view.\<close>

lemma view_post_found:
  fixes cx :: ctx
  assumes "first_published s (posts a) = Some p"
  defines "p' \<equiv> p\<lparr>views := Some (views_or_0 p + 1), updated_at := utcnow cx\<rparr>"
  shows "view_post cx s a = Inr (Render ''post.html'', a\<lparr>posts := update_row p' (posts a)\<rparr>)"
    and "first_published s (update_row p' (posts a)) = Some p'"
    and "views_or_0 p' = views_or_0 p + 1" and "post_id p' = post_id p"
proof -
  show "view_post cx s a = Inr (Render ''post.html'', a\<lparr>posts := update_row p' (posts a)\<rparr>)"
    using assms(1) by (simp add: view_post_def increment_views_def stored_views p'_def)
  have "slug p' = s \<and> is_published p'"
    using find_Some_mem [OF assms(1) [unfolded first_published_def]] by (simp add: p'_def)
  then show "first_published s (update_row p' (posts a)) = Some p'"
    unfolding first_published_def
    by (intro find_update_row [OF assms(1) [unfolded first_published_def]]) (simp_all add: p'_def)
  show "views_or_0 p' = views_or_0 p + 1" by (simp add: p'_def views_or_0_def)
  show "post_id p' = post_id p" by (simp add: p'_def)
qed

lemma view_requests_counts:
  assumes "first_published s (posts a) = Some p" and "distinct (map post_id (posts a))"
  shows "\<exists>a' p'. view_requests cxs s a = Inr a' \<and>
           first_published s (posts a') = Some p' \<and> post_id p' = post_id p \<and>
           views_or_0 p' = views_or_0 p + int (length cxs) \<and>
           map post_id (posts a') = map post_id (posts a) \<and>
           list_all2 (\<lambda>q q'. views_or_0 q \<le> views_or_0 q' \<and> (post_id q \<noteq> post_id p \<longrightarrow> q' = q))
             (posts a) (posts a')"
  using assms
proof (induction cxs arbitrary: a p)
  case Nil
  then show ?case by (auto simp: list_all2_same)
next
  case (Cons cx cxs)
  let ?p1 = "p\<lparr>views := Some (views_or_0 p + 1), updated_at := utcnow cx\<rparr>"
  let ?a1 = "a\<lparr>posts := update_row ?p1 (posts a)\<rparr>"
  note v = view_post_found [OF Cons.prems(1), of cx]
  have ids: "map post_id (posts ?a1) = map post_id (posts a)"
    by (simp add: update_row_ids)
  have f1: "first_published s (posts ?a1) = Some ?p1" using v(2) by simp
  have d1: "distinct (map post_id (posts ?a1))" using ids Cons.prems(2) by simp
  from Cons.IH [OF f1 d1] obtain a' p' where r:
    "view_requests cxs s ?a1 = Inr a'"
    "first_published s (posts a') = Some p'" "post_id p' = post_id ?p1"
    "views_or_0 p' = views_or_0 ?p1 + int (length cxs)"
    "map post_id (posts a') = map post_id (posts ?a1)"
    "list_all2 (\<lambda>q q'. views_or_0 q \<le> views_or_0 q' \<and> (post_id q \<noteq> post_id ?p1 \<longrightarrow> q' = q))
       (posts ?a1) (posts a')"
    by blast
  have pin: "p \<in> set (posts a)"
    using find_Some_mem [OF Cons.prems(1) [unfolded first_published_def]] by simp
  have step: "list_all2 (\<lambda>q q'. views_or_0 q \<le> views_or_0 q' \<and> (post_id q \<noteq> post_id p \<longrightarrow> q' = q))
      (posts a) (posts ?a1)"
    using update_row_all2 [OF Cons.prems(2) pin, of ?p1] v(3) by simp
  have "list_all2 (\<lambda>q q'. views_or_0 q \<le> views_or_0 q' \<and> (post_id q \<noteq> post_id p \<longrightarrow> q' = q))
      (posts a) (posts a')"
    using step r(6)
    by (rule list_all2_trans [rotated]) auto
  moreover have "view_requests (cx # cxs) s a = Inr a'"
    using v(1) r(1) by simp
  moreover have "views_or_0 p' = views_or_0 p + int (length (cx # cxs))"
    using r(4) v(3) by simp
  ultimately show ?case
    using r(2,3,5) ids by (intro exI [of _ a'] exI [of _ p']) simp
qed

text \<open>
  C6. A view of a published post adds exactly 1 to its counter, an unset counter counting
  as 0; \<open>n\<close> views one after the other add exactly \<open>n\<close>; no counter of the table goes down
  and no other post changes. The primary key \<open>id\<close> is what makes the rows distinct.
\<close>

theorem views_count_requests:
  "first_published s (posts a) = Some p \<and> distinct (map post_id (posts a)) \<longrightarrow>
     (\<exists>a1 p1. view_post cx s a = Inr (Render ''post.html'', a1) \<and>
        first_published s (posts a1) = Some p1 \<and> post_id p1 = post_id p \<and>
        views p1 = Some ((case views p of None \<Rightarrow> 0 | Some v \<Rightarrow> v) + 1)) \<and>
     (\<exists>a' p'. view_requests cxs s a = Inr a' \<and>
        first_published s (posts a') = Some p' \<and> post_id p' = post_id p \<and>
        views_or_0 p' = views_or_0 p + int (length cxs) \<and>
        map post_id (posts a') = map post_id (posts a) \<and>
        list_all2 (\<lambda>q q'. views_or_0 q \<le> views_or_0 q' \<and> (post_id q \<noteq> post_id p \<longrightarrow> q' = q))
          (posts a) (posts a'))"
proof (intro impI conjI)
  assume h: "first_published s (posts a) = Some p \<and> distinct (map post_id (posts a))"
  let ?p1 = "p\<lparr>views := Some (views_or_0 p + 1), updated_at := utcnow cx\<rparr>"
  from h have f: "first_published s (posts a) = Some p" by simp
  note v = view_post_found [OF f, of cx]
  show "\<exists>a1 p1. view_post cx s a = Inr (Render ''post.html'', a1) \<and>
        first_published s (posts a1) = Some p1 \<and> post_id p1 = post_id p \<and>
        views p1 = Some ((case views p of None \<Rightarrow> 0 | Some v \<Rightarrow> v) + 1)"
    using v(1,2)
    by (intro exI [of _ "a\<lparr>posts := update_row ?p1 (posts a)\<rparr>"] exI [of _ ?p1])
       (simp add: views_or_0_def)
  from h show "\<exists>a' p'. view_requests cxs s a = Inr a' \<and>
        first_published s (posts a') = Some p' \<and> post_id p' = post_id p \<and>
        views_or_0 p' = views_or_0 p + int (length cxs) \<and>
        map post_id (posts a') = map post_id (posts a) \<and>
        list_all2 (\<lambda>q q'. views_or_0 q \<le> views_or_0 q' \<and> (post_id q \<noteq> post_id p \<longrightarrow> q' = q))
          (posts a) (posts a')"
    by (intro view_requests_counts) simp_all
qed

theorem views_count_requests_witness:
  "first_published ''hello'' (posts unviewed_app)
     = Some ((hello_post 1 ''hello'')\<lparr>is_published := True, views := None\<rparr>) \<and>
   distinct (map post_id (posts unviewed_app)) \<and>
   (\<exists>a' p'. view_requests [at_time 5, at_time 6, at_time 7] ''hello'' unviewed_app = Inr a' \<and>
      first_published ''hello'' (posts a') = Some p' \<and> views_or_0 p' = 3)"
proof -
  let ?p = "(hello_post 1 ''hello'')\<lparr>is_published := True, views := None\<rparr>"
  have h: "first_published ''hello'' (posts unviewed_app) = Some ?p \<and>
      distinct (map post_id (posts unviewed_app))"
    by (simp add: unviewed_app_def fresh_app_def first_published_def hello_post_def)
  have z: "views_or_0 ?p = 0" by (simp add: views_or_0_def)
  from views_count_requests [of "''hello''" unviewed_app ?p _ "[at_time 5, at_time 6, at_time 7]"] h
  have "\<exists>a' p'. view_requests [at_time 5, at_time 6, at_time 7] ''hello'' unviewed_app = Inr a' \<and>
      first_published ''hello'' (posts a') = Some p' \<and>
      views_or_0 p' = views_or_0 ?p + int (length [at_time 5, at_time 6, at_time 7])"
    by blast
  with z have "\<exists>a' p'. view_requests [at_time 5, at_time 6, at_time 7] ''hello'' unviewed_app = Inr a' \<and>
      first_published ''hello'' (posts a') = Some p' \<and> views_or_0 p' = 3"
    by simp
  with h show ?thesis by blast
qed


section \<open>Deleting a post\<close>

text \<open>
  C7. The delete of a post by an administrator removes the row of the post and its rows of
  \<open>post_tags\<close>, and leaves the table of tags as it was, also the tags that no post has any
  more.
\<close>

theorem delete_post_keeps_tags:
  "is_admin u \<and> get_or_404 pid (posts a) = Some p \<longrightarrow>
     (\<exists>a'. delete_post (Some u) pid a = Inr (Redirect ''blog.admin_posts'' deleted_flash, a') \<and>
        posts a' = filter (\<lambda>q. post_id q \<noteq> pid) (posts a) \<and>
        post_tags a' = filter (\<lambda>l. fst l \<noteq> pid) (post_tags a) \<and>
        get_or_404 pid (posts a') = None \<and>
        pid \<notin> fst ` set (post_tags a') \<and>
        tags a' = tags a \<and> users a' = users a)"
proof (intro impI)
  assume h: "is_admin u \<and> get_or_404 pid (posts a) = Some p"
  let ?folder = "case cover_image p of None \<Rightarrow> uploads a
                 | Some f \<Rightarrow> if f = [] then uploads a else uploads a - {f}"
  let ?a' = "a\<lparr>posts := filter (\<lambda>q. post_id q \<noteq> pid) (posts a),
               post_tags := filter (\<lambda>l. fst l \<noteq> pid) (post_tags a),
               uploads := ?folder\<rparr>"
  from h have "delete_post (Some u) pid a = Inr (Redirect ''blog.admin_posts'' deleted_flash, ?a')"
    by (simp add: delete_post_def admin_required_def Let_def)
  moreover have "get_or_404 pid (posts ?a') = None"
    by (simp add: get_or_404_def find_None_iff)
  moreover have "pid \<notin> fst ` set (post_tags ?a')" by auto
  ultimately show "\<exists>a'. delete_post (Some u) pid a = Inr (Redirect ''blog.admin_posts'' deleted_flash, a') \<and>
        posts a' = filter (\<lambda>q. post_id q \<noteq> pid) (posts a) \<and>
        post_tags a' = filter (\<lambda>l. fst l \<noteq> pid) (post_tags a) \<and>
        get_or_404 pid (posts a') = None \<and>
        pid \<notin> fst ` set (post_tags a') \<and>
        tags a' = tags a \<and> users a' = users a"
    by (intro exI [of _ ?a']) simp
qed

theorem delete_post_keeps_tags_witness:
  "is_admin admin \<and> get_or_404 1 (posts tagged_app) = Some (hello_post 1 ''hello'') \<and>
   (\<exists>a'. delete_post (Some admin) 1 tagged_app = Inr (Redirect ''blog.admin_posts'' deleted_flash, a') \<and>
      posts a' = [hello_post 2 ''hello-1''] \<and> post_tags a' = [] \<and>
      tags a' = [\<lparr>tag_id = 1, tag_name = ''python'', tag_slug = ''python''\<rparr>])"
proof -
  have h: "is_admin admin \<and> get_or_404 1 (posts tagged_app) = Some (hello_post 1 ''hello'')"
    by (simp add: admin_def tagged_app_def fresh_app_def get_or_404_def hello_post_def)
  have e: "filter (\<lambda>q. post_id q \<noteq> 1) (posts tagged_app) = [hello_post 2 ''hello-1'']"
    "filter (\<lambda>l. fst l \<noteq> 1) (post_tags tagged_app) = []"
    "tags tagged_app = [\<lparr>tag_id = 1, tag_name = ''python'', tag_slug = ''python''\<rparr>]"
    by (simp_all add: tagged_app_def fresh_app_def hello_post_def)
  from delete_post_keeps_tags [of admin 1 tagged_app "hello_post 1 ''hello''"] h
  have "\<exists>a'. delete_post (Some admin) 1 tagged_app = Inr (Redirect ''blog.admin_posts'' deleted_flash, a') \<and>
        posts a' = filter (\<lambda>q. post_id q \<noteq> 1) (posts tagged_app) \<and>
        post_tags a' = filter (\<lambda>l. fst l \<noteq> 1) (post_tags tagged_app) \<and>
        tags a' = tags tagged_app"
    by blast
  with e h show ?thesis by simp
qed


section \<open>Login of a user who is no administrator\<close>

text \<open>
  C10. The login never logs in a user whose \<open>is_admin\<close> is false: with the name of such a
  user the session stays as it was, and the right password, from a client not logged in
  and in a submission that validates, is answered by the redirect to the login page with
  the message of the refusal. Whoever the login does log in is an administrator.
\<close>

theorem login_refuses_non_admin:
  "(find (\<lambda>x. username x = form_username form) rows = Some u \<and> \<not> is_admin u \<longrightarrow>
      snd (login chk cu form arg rows) = cu \<and>
      (cu = None \<and> login_validates form \<and> chk (password_hash u) (form_password form) \<longrightarrow>
         login chk cu form arg rows
           = (Redirect ''auth.login'' [(''Access denied. Admin privileges required.'', ''error'')],
              None))) \<and>
   (cu = None \<and> snd (login chk cu form arg rows) = Some v \<longrightarrow> is_admin v)"
  by (auto simp: login_def split: option.splits if_splits)

theorem login_refuses_non_admin_witness:
  "find (\<lambda>x. username x = form_username reader_login) [admin, reader] = Some reader \<and>
   \<not> is_admin reader \<and> login_validates reader_login \<and>
   example_check (password_hash reader) (form_password reader_login) \<and>
   login example_check None reader_login None [admin, reader]
     = (Redirect ''auth.login'' [(''Access denied. Admin privileges required.'', ''error'')], None)"
proof -
  have h: "find (\<lambda>x. username x = form_username reader_login) [admin, reader] = Some reader \<and>
      \<not> is_admin reader"
    by (simp add: reader_login_def admin_def reader_def)
  have k: "login_validates reader_login \<and>
      example_check (password_hash reader) (form_password reader_login)"
    by (simp add: reader_login_def reader_def example_check_def)
  from login_refuses_non_admin [of reader_login "[admin, reader]" reader example_check None None] h k
  have "login example_check None reader_login None [admin, reader]
     = (Redirect ''auth.login'' [(''Access denied. Admin privileges required.'', ''error'')], None)"
    by blast
  with h k show ?thesis by blast
qed


section \<open>Editing a post\<close>

lemma tag_names_Nil: "tag_names [] = []"
  by (simp add: tag_names_def strip_def)

lemma flush_clean: "flush \<lparr>tag_rows = rows, pending = []\<rparr> = Inr \<lparr>tag_rows = rows, pending = []\<rparr>"
  by (simp add: flush_def)

lemma stored_keeps: "post_id (stored t p q) = post_id q" "slug (stored t p q) = slug q"
  "title (stored t p q) = title q" "content (stored t p q) = content q"
  "published_at (stored t p q) = published_at q" "is_published (stored t p q) = is_published q"
  by (simp_all add: stored_def)

text \<open>What an edit that returns has done to the table of posts.\<close>

lemma edit_post_result:
  assumes "edit_post slugify cx cu pid form a = Inr (r, a')"
  shows "(r = Render ''admin/post_form.html'' \<and> a' = a \<and> \<not> validate_on_submit form) \<or>
         (\<exists>p p'. r = Redirect ''blog.admin_posts'' updated_flash \<and> validate_on_submit form \<and>
            get_or_404 pid (posts a) = Some p \<and> posts a' = update_row p' (posts a) \<and>
            post_id p' = post_id p \<and> slug p' = slug p \<and> title p' = form_title form \<and>
            content p' = (case form_content form of None \<Rightarrow> content p | Some body \<Rightarrow> Some body) \<and>
            is_published p' = form_is_published form \<and>
            published_at p' = (if \<not> is_published p \<and> form_is_published form
                               then Some (utcnow cx) else published_at p))"
proof (cases "validate_on_submit form")
  case False
  with assms show ?thesis
    by (auto simp: edit_post_def split: option.splits)
next
  case True
  from assms obtain p where p: "get_or_404 pid (posts a) = Some p"
    by (auto simp: edit_post_def split: option.splits)
  define p4 where "p4 = (let post1 = p\<lparr>title := form_title form, excerpt := form_excerpt form,
                                       content := (case form_content form of
                                                     None \<Rightarrow> content p | Some body \<Rightarrow> Some body),
                                       is_featured := form_is_featured form\<rparr>;
                             post2 = post1\<lparr>is_published := form_is_published form\<rparr>;
                             post3 = (if \<not> is_published post1 \<and> form_is_published form
                                      then post2\<lparr>published_at := Some (utcnow cx)\<rparr> else post2)
                         in case fst (save_image (form_cover_image form) (uuid4_hex cx) (uploads a)) of
                              Some f \<Rightarrow> post3\<lparr>cover_image := Some f\<rparr> | None \<Rightarrow> post3)"
  have k: "post_id p4 = post_id p" "slug p4 = slug p" "title p4 = form_title form"
    "content p4 = (case form_content form of None \<Rightarrow> content p | Some body \<Rightarrow> Some body)"
    "is_published p4 = form_is_published form"
    "published_at p4 = (if \<not> is_published p \<and> form_is_published form
                        then Some (utcnow cx) else published_at p)"
    by (simp_all add: p4_def Let_def split: option.splits)
  from assms True p have "r = Redirect ''blog.admin_posts'' updated_flash \<and>
      posts a' = update_row (stored (utcnow cx) p p4) (posts a)"
    by (auto simp: edit_post_def p4_def Let_def split: option.splits sum.splits prod.splits if_splits)
  with True p k show ?thesis
    by (intro disjI2 exI [of _ p] exI [of _ "stored (utcnow cx) p p4"]) (simp add: stored_keeps)
qed

lemma update_row_slugs:
  assumes "distinct (map post_id rows)" and "p \<in> set rows" and "post_id p' = post_id p"
    and "slug p' = slug p"
  shows "map slug (update_row p' rows) = map slug rows"
    and "map post_id (update_row p' rows) = map post_id rows"
proof -
  have "\<And>q. q \<in> set rows \<Longrightarrow> post_id q = post_id p \<Longrightarrow> q = p"
    using assms(1,2) by (meson distinct_map inj_onD)
  with assms(3,4) show "map slug (update_row p' rows) = map slug rows"
    by (auto simp: update_row_def)
  from assms(3) show "map post_id (update_row p' rows) = map post_id rows"
    by (auto simp: update_row_def)
qed

lemma get_or_404_update_row:
  assumes "get_or_404 pid rows = Some p" and "post_id p' = post_id p"
  shows "get_or_404 pid (update_row p' rows) = Some p'"
  using assms unfolding get_or_404_def
  by (induction rows) (auto simp: update_row_def split: if_splits)

text \<open>
  C3. An edit never changes a slug. Whatever an edit answers, form rendered again or post
  saved, every row of the table has the slug it had, and the post edited is found under
  its old slug with the title of the form; the primary key is what makes the rows
  distinct. An edit that raises commits nothing. An administrator's valid submission
  without tags for an existing post is saved, when it brings a file or the post has no
  cover image.
\<close>

theorem edit_post_keeps_slug:
  "(distinct (map post_id (posts a)) \<and> edit_post slugify cx cu pid form a = Inr (r, a') \<longrightarrow>
      map slug (posts a') = map slug (posts a) \<and>
      map post_id (posts a') = map post_id (posts a) \<and>
      (\<exists>p p'. get_or_404 pid (posts a) = Some p \<and> get_or_404 pid (posts a') = Some p' \<and>
         slug p' = slug p \<and>
         (r = Redirect ''blog.admin_posts'' updated_flash \<longrightarrow> title p' = form_title form))) \<and>
   (is_admin u \<and> get_or_404 pid (posts a) = Some p0 \<and> validate_on_submit form \<and>
    form_tags form = [] \<and> (truthy (form_cover_image form) \<or> cover_image p0 = None) \<longrightarrow>
      (\<exists>a2. edit_post slugify cx (Some u) pid form a = Inr (Redirect ''blog.admin_posts'' updated_flash, a2)))"
proof (intro conjI impI)
  assume h: "distinct (map post_id (posts a)) \<and> edit_post slugify cx cu pid form a = Inr (r, a')"
  then have e: "edit_post slugify cx cu pid form a = Inr (r, a')" and d: "distinct (map post_id (posts a))"
    by simp_all
  from e obtain p where p: "get_or_404 pid (posts a) = Some p"
    by (auto simp: edit_post_def split: option.splits)
  then have pin: "p \<in> set (posts a)" "post_id p = pid"
    using find_Some_mem [of "\<lambda>p. post_id p = pid" "posts a" p] by (simp_all add: get_or_404_def)
  from edit_post_result [OF e] consider
    (render) "r = Render ''admin/post_form.html''" "a' = a"
    | (saved) p' where "r = Redirect ''blog.admin_posts'' updated_flash"
        "posts a' = update_row p' (posts a)" "post_id p' = post_id p" "slug p' = slug p"
        "title p' = form_title form"
    using p by auto
  then have "map slug (posts a') = map slug (posts a) \<and>
      map post_id (posts a') = map post_id (posts a) \<and>
      (\<exists>p p'. get_or_404 pid (posts a) = Some p \<and> get_or_404 pid (posts a') = Some p' \<and>
         slug p' = slug p \<and>
         (r = Redirect ''blog.admin_posts'' updated_flash \<longrightarrow> title p' = form_title form))"
  proof cases
    case render
    with p show ?thesis by auto
  next
    case saved
    from update_row_slugs [OF d pin(1) saved(3,4)] saved(2)
    have "map slug (posts a') = map slug (posts a)" "map post_id (posts a') = map post_id (posts a)"
      by simp_all
    moreover from get_or_404_update_row [OF p saved(3)] saved(2)
    have "get_or_404 pid (posts a') = Some p'" by simp
    ultimately show ?thesis using p saved(4,5) by auto
  qed
  then show "map slug (posts a') = map slug (posts a)"
    and "map post_id (posts a') = map post_id (posts a)"
    and "\<exists>p p'. get_or_404 pid (posts a) = Some p \<and> get_or_404 pid (posts a') = Some p' \<and>
         slug p' = slug p \<and>
         (r = Redirect ''blog.admin_posts'' updated_flash \<longrightarrow> title p' = form_title form)"
    by simp_all
next
  assume h: "is_admin u \<and> get_or_404 pid (posts a) = Some p0 \<and> validate_on_submit form \<and>
    form_tags form = [] \<and> (truthy (form_cover_image form) \<or> cover_image p0 = None)"
  then have c: "\<not> (\<not> truthy (form_cover_image form) \<and> truthy (cover_image p0))"
    by (auto simp: truthy_def)
  obtain fn fo where "save_image (form_cover_image form) (uuid4_hex cx) (uploads a) = (fn, fo)"
    by (cases "save_image (form_cover_image form) (uuid4_hex cx) (uploads a)")
  with h c show "\<exists>a2. edit_post slugify cx (Some u) pid form a
      = Inr (Redirect ''blog.admin_posts'' updated_flash, a2)"
    by (simp add: edit_post_def admin_required_def tag_names_Nil flush_clean Let_def)
qed

theorem edit_post_keeps_slug_witness:
  "distinct (map post_id (posts one_post_app)) \<and>
   edit_post slugify_ascii (at_time 9) (Some admin) 1
       (blank_form\<lparr>form_title := ''Goodbye'', form_tags := ''Python''\<rparr>) one_post_app
     = Inr (Redirect ''blog.admin_posts'' updated_flash,
            one_post_app\<lparr>posts := [(hello_post 1 ''hello'')\<lparr>title := ''Goodbye'', updated_at := 9\<rparr>],
                          tags := [\<lparr>tag_id = 1, tag_name = ''python'', tag_slug = ''python''\<rparr>],
                          post_tags := [(1, 1)]\<rparr>) \<and>
   map slug [(hello_post 1 ''hello'')\<lparr>title := ''Goodbye'', updated_at := 9\<rparr>] = map slug (posts one_post_app) \<and>
   map slug (posts one_post_app) = [''hello''] \<and>
   is_admin admin \<and> get_or_404 1 (posts one_post_app) = Some (hello_post 1 ''hello'') \<and>
   validate_on_submit (blank_form\<lparr>form_title := ''Goodbye''\<rparr>) \<and>
   cover_image (hello_post 1 ''hello'') = None \<and>
   (\<exists>a2. edit_post slugify_ascii (at_time 9) (Some admin) 1 (blank_form\<lparr>form_title := ''Goodbye''\<rparr>)
            one_post_app = Inr (Redirect ''blog.admin_posts'' updated_flash, a2)) \<and>
   edit_post slugify_ascii (at_time 9) (Some admin) 1
       (blank_form\<lparr>form_title := ''Goodbye'', form_tags := ''python, Python''\<rparr>) one_post_app
     = Inl IntegrityError \<and>
   edit_post slugify_ascii (at_time 9) (Some admin) 1 (blank_form\<lparr>form_title := ''Goodbye''\<rparr>)
       (one_post_app\<lparr>posts := [(hello_post 1 ''hello'')\<lparr>cover_image := Some ''0f.png''\<rparr>]\<rparr>)
     = Inl AttributeError"
proof -
  let ?f = "blank_form\<lparr>form_title := ''Goodbye'', form_tags := ''Python''\<rparr>"
  let ?g = "blank_form\<lparr>form_title := ''Goodbye''\<rparr>"
  let ?a' = "one_post_app\<lparr>posts := [(hello_post 1 ''hello'')\<lparr>title := ''Goodbye'', updated_at := 9\<rparr>],
                          tags := [\<lparr>tag_id = 1, tag_name = ''python'', tag_slug = ''python''\<rparr>],
                          post_tags := [(1, 1)]\<rparr>"
  have d: "distinct (map post_id (posts one_post_app))"
    by (simp add: one_post_app_def fresh_app_def)
  have e: "edit_post slugify_ascii (at_time 9) (Some admin) 1 ?f one_post_app
      = Inr (Redirect ''blog.admin_posts'' updated_flash, ?a')"
    by code_simp
  have s: "map slug (posts one_post_app) = [''hello'']"
    by (simp add: one_post_app_def fresh_app_def hello_post_def)
  have k: "is_admin admin" "get_or_404 1 (posts one_post_app) = Some (hello_post 1 ''hello'')"
    by (simp_all add: admin_def one_post_app_def fresh_app_def get_or_404_def hello_post_def)
  have v: "validate_on_submit ?g" by code_simp
  have t: "form_tags ?g = []" by (simp add: blank_form_def)
  have n: "cover_image (hello_post 1 ''hello'') = None" by (simp add: hello_post_def)
  have x1: "edit_post slugify_ascii (at_time 9) (Some admin) 1
       (blank_form\<lparr>form_title := ''Goodbye'', form_tags := ''python, Python''\<rparr>) one_post_app
     = Inl IntegrityError"
    by code_simp
  have x2: "edit_post slugify_ascii (at_time 9) (Some admin) 1 ?g
       (one_post_app\<lparr>posts := [(hello_post 1 ''hello'')\<lparr>cover_image := Some ''0f.png''\<rparr>]\<rparr>)
     = Inl AttributeError"
    by code_simp
  from edit_post_keeps_slug [of one_post_app slugify_ascii "at_time 9" "Some admin" 1 ?f
      "Redirect ''blog.admin_posts'' updated_flash" ?a'] d e
  have w1: "map slug [(hello_post 1 ''hello'')\<lparr>title := ''Goodbye'', updated_at := 9\<rparr>]
      = map slug (posts one_post_app)"
    by simp
  from edit_post_keeps_slug [of one_post_app slugify_ascii "at_time 9" _ 1 ?g _ _ admin
      "hello_post 1 ''hello''"] k v t n
  have w2: "\<exists>a2. edit_post slugify_ascii (at_time 9) (Some admin) 1 ?g one_post_app
      = Inr (Redirect ''blog.admin_posts'' updated_flash, a2)"
    by blast
  from d e w1 s k v n w2 x1 x2 show ?thesis by (intro conjI)
qed


section \<open>Creation and the body of the post\<close>

lemma strip_nonempty: "strip s \<noteq> [] \<Longrightarrow> s \<noteq> []"
  by (auto simp: strip_def)

lemma create_post_result:
  assumes "create_post slugify cx cu form a = Inr (r, a')"
  shows "(r = Render ''admin/post_form.html'' \<and> a' = a \<and> \<not> validate_on_submit form) \<or>
         (r = Redirect ''blog.admin_posts'' created_flash \<and> validate_on_submit form \<and>
          form_content form \<noteq> None)"
  using assms
  by (auto simp: create_post_def Let_def split: option.splits if_splits sum.splits prod.splits)

text \<open>The tag loop and the flush raise nothing but \<open>IntegrityError\<close>.\<close>

lemma insert_tags_failure: "insert_tags rows ts = Inl e \<Longrightarrow> e = IntegrityError"
  by (induction ts arbitrary: rows) (auto split: if_splits)

lemma flush_failure: "flush s = Inl e \<Longrightarrow> e = IntegrityError"
  by (auto simp: flush_def split: sum.splits dest: insert_tags_failure)

lemma get_or_create_failure: "get_or_create slugify n s = Inl e \<Longrightarrow> e = IntegrityError"
  by (auto simp: get_or_create_def Let_def split: sum.splits option.splits dest: flush_failure)

lemma append_tags_failure: "append_tags slugify ns acc s = Inl e \<Longrightarrow> e = IntegrityError"
  by (induction ns arbitrary: acc s)
     (auto split: sum.splits prod.splits dest: get_or_create_failure)

lemma create_post_without_content:
  assumes "is_admin u" and "validate_on_submit form" and "form_content form = None"
  shows "create_post slugify cx (Some u) form a = Inl IntegrityError"
proof -
  obtain fn fo where si: "save_image (form_cover_image form) (uuid4_hex cx) (uploads a) = (fn, fo)"
    by (cases "save_image (form_cover_image form) (uuid4_hex cx) (uploads a)")
  show ?thesis
  proof (cases "append_tags slugify (tag_names (form_tags form)) [] \<lparr>tag_rows = tags a, pending = []\<rparr>")
    case (Inl e)
    with append_tags_failure [OF Inl] assms si show ?thesis
      by (simp add: create_post_def admin_required_def Let_def)
  next
    case (Inr x)
    obtain ts s where x: "x = (ts, s)" by (cases x)
    show ?thesis
    proof (cases "flush s")
      case (Inl e)
      with flush_failure [OF Inl] Inr x assms si show ?thesis
        by (simp add: create_post_def admin_required_def Let_def)
    next
      case fl: (Inr s')
      with Inr x assms si show ?thesis
        by (cases fn) (simp_all add: create_post_def admin_required_def Let_def)
    qed
  qed
qed

text \<open>
  C8, as amended. The creation does not validate the body. The form validates exactly when
  the title is not blank and has at most 200 characters, the excerpt has at most 500 and
  the cover image has an allowed extension; the body changes nothing in that. A
  submission that does not validate is answered by the form and no row is created. One
  that validates is never answered by the form: what is stored for it is a row with the
  body of the form, the empty string as any other, and without tags such a submission of
  an administrator is stored. Only the submission that carries no field \<open>content\<close> at all
  creates no row: it validates, and its commit raises \<open>IntegrityError\<close>.
\<close>

theorem create_post_ignores_content:
  "validate_on_submit form
     = (strip (form_title form) \<noteq> [] \<and> length (form_title form) \<le> 200 \<and>
        length (form_excerpt form) \<le> 500 \<and> file_allowed (form_cover_image form)) \<and>
   validate_on_submit (form\<lparr>form_content := c\<rparr>) = validate_on_submit form \<and>
   (is_admin u \<and> \<not> validate_on_submit form \<longrightarrow>
      create_post slugify cx (Some u) form a = Inr (Render ''admin/post_form.html'', a)) \<and>
   (validate_on_submit form \<and> create_post slugify cx cu form a = Inr (r, a') \<longrightarrow>
      r = Redirect ''blog.admin_posts'' created_flash \<and>
      (\<exists>p body. form_content form = Some body \<and> posts a' = posts a @ [p] \<and> content p = Some body)) \<and>
   (is_admin u \<and> validate_on_submit form \<and> form_tags form = [] \<and> form_content form = Some body \<longrightarrow>
      (\<exists>a2 p. create_post slugify cx (Some u) form a = Inr (Redirect ''blog.admin_posts'' created_flash, a2) \<and>
         posts a2 = posts a @ [p] \<and> content p = Some body)) \<and>
   (is_admin u \<and> validate_on_submit form \<and> form_content form = None \<longrightarrow>
      create_post slugify cx (Some u) form a = Inl IntegrityError)"
proof (intro conjI impI)
  show "validate_on_submit form
     = (strip (form_title form) \<noteq> [] \<and> length (form_title form) \<le> 200 \<and>
        length (form_excerpt form) \<le> 500 \<and> file_allowed (form_cover_image form))"
    using strip_nonempty [of "form_title form"]
    by (cases "form_title form") (auto simp: validate_on_submit_def)
  show "validate_on_submit (form\<lparr>form_content := c\<rparr>) = validate_on_submit form"
    by (simp add: validate_on_submit_def)
next
  assume "is_admin u \<and> \<not> validate_on_submit form"
  then show "create_post slugify cx (Some u) form a = Inr (Render ''admin/post_form.html'', a)"
    by (simp add: create_post_def admin_required_def)
next
  assume h: "validate_on_submit form \<and> create_post slugify cx cu form a = Inr (r, a')"
  with create_post_result [of slugify cx cu form a r a']
  have r: "r = Redirect ''blog.admin_posts'' created_flash" and b: "form_content form \<noteq> None"
    by auto
  show "r = Redirect ''blog.admin_posts'' created_flash" by (rule r)
  from h r create_post_appends [of slugify cx cu form a "''blog.admin_posts''" created_flash a']
  obtain p where "posts a' = posts a @ [p]" "content p = form_content form" by auto
  with b show "\<exists>p body. form_content form = Some body \<and> posts a' = posts a @ [p] \<and>
      content p = Some body"
    by auto
next
  assume h: "is_admin u \<and> validate_on_submit form \<and> form_tags form = [] \<and>
    form_content form = Some body"
  obtain fn fo where "save_image (form_cover_image form) (uuid4_hex cx) (uploads a) = (fn, fo)"
    by (cases "save_image (form_cover_image form) (uuid4_hex cx) (uploads a)")
  with h have "\<exists>a2. create_post slugify cx (Some u) form a
      = Inr (Redirect ''blog.admin_posts'' created_flash, a2)"
    by (cases fn) (simp_all add: create_post_def admin_required_def tag_names_Nil flush_clean Let_def)
  then obtain a2 where c: "create_post slugify cx (Some u) form a
      = Inr (Redirect ''blog.admin_posts'' created_flash, a2)" ..
  from create_post_appends [OF c] h obtain p where "posts a2 = posts a @ [p]"
    "content p = Some body" by auto
  with c show "\<exists>a2 p. create_post slugify cx (Some u) form a
      = Inr (Redirect ''blog.admin_posts'' created_flash, a2) \<and>
         posts a2 = posts a @ [p] \<and> content p = Some body"
    by blast
next
  assume "is_admin u \<and> validate_on_submit form \<and> form_content form = None"
  then show "create_post slugify cx (Some u) form a = Inl IntegrityError"
    by (intro create_post_without_content) simp_all
qed

theorem create_post_ignores_content_witness:
  "is_admin admin \<and> validate_on_submit (blank_form\<lparr>form_title := ''Hello''\<rparr>) \<and>
   form_tags (blank_form\<lparr>form_title := ''Hello''\<rparr>) = [] \<and>
   form_content (blank_form\<lparr>form_title := ''Hello''\<rparr>) = Some [] \<and>
   (\<exists>a2 p. create_post slugify_ascii (at_time 1) (Some admin) (blank_form\<lparr>form_title := ''Hello''\<rparr>) fresh_app
              = Inr (Redirect ''blog.admin_posts'' created_flash, a2) \<and>
            posts a2 = posts fresh_app @ [p] \<and> content p = Some []) \<and>
   \<not> validate_on_submit (blank_form\<lparr>form_content := Some ''Some text''\<rparr>) \<and>
   create_post slugify_ascii (at_time 1) (Some admin) (blank_form\<lparr>form_content := Some ''Some text''\<rparr>) fresh_app
     = Inr (Render ''admin/post_form.html'', fresh_app) \<and>
   validate_on_submit (blank_form\<lparr>form_title := ''Hello'', form_content := None\<rparr>) \<and>
   form_content (blank_form\<lparr>form_title := ''Hello'', form_content := None\<rparr>) = None \<and>
   create_post slugify_ascii (at_time 1) (Some admin)
       (blank_form\<lparr>form_title := ''Hello'', form_content := None\<rparr>) fresh_app
     = Inl IntegrityError"
proof -
  let ?f = "blank_form\<lparr>form_title := ''Hello''\<rparr>"
  let ?g = "blank_form\<lparr>form_content := Some ''Some text''\<rparr>"
  let ?n = "blank_form\<lparr>form_title := ''Hello'', form_content := None\<rparr>"
  have a: "is_admin admin" by (simp add: admin_def)
  have v: "validate_on_submit ?f" by code_simp
  have n: "\<not> validate_on_submit ?g" by code_simp
  have vn: "validate_on_submit ?n" by code_simp
  have t: "form_tags ?f = []" "form_content ?f = Some []" by (simp_all add: blank_form_def)
  have tn: "form_content ?n = None" by simp
  from create_post_ignores_content [of ?f _ admin slugify_ascii "at_time 1" fresh_app _ _ _ "[]"] a v t
  have w1: "\<exists>a2 p. create_post slugify_ascii (at_time 1) (Some admin) ?f fresh_app
              = Inr (Redirect ''blog.admin_posts'' created_flash, a2) \<and>
            posts a2 = posts fresh_app @ [p] \<and> content p = Some []"
    by simp
  from create_post_ignores_content [of ?g _ admin slugify_ascii "at_time 1" fresh_app] a n
  have w2: "create_post slugify_ascii (at_time 1) (Some admin) ?g fresh_app
     = Inr (Render ''admin/post_form.html'', fresh_app)"
    by blast
  from create_post_ignores_content [of ?n _ admin slugify_ascii "at_time 1" fresh_app] a vn tn
  have w3: "create_post slugify_ascii (at_time 1) (Some admin) ?n fresh_app = Inl IntegrityError"
    by blast
  from a v t w1 n w2 vn tn w3 show ?thesis by (intro conjI)
qed

text \<open>
  The claim as it stands fails: the administrator's submission with the title ``Hello'' and
  the empty string as body is accepted, and the row created has the empty content.
\<close>

theorem empty_body_counterexample:
  "form_content (blank_form\<lparr>form_title := ''Hello''\<rparr>) = Some [] \<and>
   create_post slugify_ascii (at_time 1) (Some admin) (blank_form\<lparr>form_title := ''Hello''\<rparr>) fresh_app
     = Inr (Redirect ''blog.admin_posts'' created_flash, fresh_app\<lparr>posts := [hello_post 1 ''hello'']\<rparr>) \<and>
   content (hello_post 1 ''hello'') = Some []"
  by code_simp


section \<open>The date of publication\<close>

lemma toggle_publish_result:
  assumes "toggle_publish cx cu pid a = Inr (r, a')"
  shows "\<exists>p p'. get_or_404 pid (posts a) = Some p \<and> posts a' = update_row p' (posts a) \<and>
           post_id p' = post_id p \<and> is_published p' = (\<not> is_published p) \<and>
           published_at p' = (if \<not> is_published p \<and> published_at p = None
                              then Some (utcnow cx) else published_at p)"
proof -
  from assms obtain p where p: "get_or_404 pid (posts a) = Some p"
    by (auto simp: toggle_publish_def split: option.splits)
  let ?p2 = "if \<not> is_published p \<and> published_at p = None
             then p\<lparr>is_published := \<not> is_published p, published_at := Some (utcnow cx)\<rparr>
             else p\<lparr>is_published := \<not> is_published p\<rparr>"
  from assms p have "posts a' = update_row (stored (utcnow cx) p ?p2) (posts a)"
    by (auto simp: toggle_publish_def Let_def split: option.splits if_splits)
  with p show ?thesis
    by (intro exI [of _ p] exI [of _ "stored (utcnow cx) p ?p2"]) (simp add: stored_keeps)
qed

text \<open>
  \<open>toggle_publish\<close> never changes a date of publication that is set; \<open>edit_post\<close> keeps it
  on a post that was published and on one that stays unpublished, and writes the clock
  over it when it publishes a post that was not, whatever the date was.
\<close>

lemma toggle_publish_keeps_date:
  assumes "toggle_publish cx cu pid a = Inr (r, a')" and "get_or_404 pid (posts a) = Some p"
    and "published_at p = Some t"
  shows "\<exists>p'. get_or_404 pid (posts a') = Some p' \<and> published_at p' = Some t"
proof -
  from toggle_publish_result [OF assms(1)] assms(2,3) obtain p' where
    "posts a' = update_row p' (posts a)" "post_id p' = post_id p" "published_at p' = Some t"
    by auto
  with get_or_404_update_row [OF assms(2), of p'] show ?thesis by auto
qed

lemma edit_post_date:
  assumes "edit_post slugify cx cu pid form a = Inr (Redirect e fl, a')"
    and "get_or_404 pid (posts a) = Some p"
  shows "\<exists>p'. get_or_404 pid (posts a') = Some p' \<and>
           published_at p' = (if \<not> is_published p \<and> form_is_published form
                              then Some (utcnow cx) else published_at p)"
proof -
  from edit_post_result [OF assms(1)] assms(2) obtain p' where
    "posts a' = update_row p' (posts a)" "post_id p' = post_id p"
    "published_at p' = (if \<not> is_published p \<and> form_is_published form
                        then Some (utcnow cx) else published_at p)"
    by auto
  with get_or_404_update_row [OF assms(2), of p'] show ?thesis by auto
qed

text \<open>
  C1. A post is created published at time 100, which sets \<open>published_at\<close>; the toggle at
  150 unpublishes it and leaves the date; the edit at 200 that publishes it again writes
  200 over the date, where the toggle at 200 would have left 100.
\<close>

theorem edit_republish_overwrites_published_at:
  "map_sum id (\<lambda>(r, a). map (\<lambda>p. (is_published p, published_at p)) (posts a))
     (create_post slugify_ascii (at_time 100) (Some admin)
        (blank_form\<lparr>form_title := ''Hello'', form_is_published := True\<rparr>) fresh_app)
     = Inr [(True, Some 100)] \<and>
   map_sum id (\<lambda>(r, a). map (\<lambda>p. (is_published p, published_at p)) (posts a))
     (and_then
        (create_post slugify_ascii (at_time 100) (Some admin)
           (blank_form\<lparr>form_title := ''Hello'', form_is_published := True\<rparr>) fresh_app)
        (toggle_publish (at_time 150) (Some admin) 1))
     = Inr [(False, Some 100)] \<and>
   map_sum id (\<lambda>(r, a). map (\<lambda>p. (is_published p, published_at p)) (posts a))
     (and_then
        (and_then
           (create_post slugify_ascii (at_time 100) (Some admin)
              (blank_form\<lparr>form_title := ''Hello'', form_is_published := True\<rparr>) fresh_app)
           (toggle_publish (at_time 150) (Some admin) 1))
        (edit_post slugify_ascii (at_time 200) (Some admin) 1
           (blank_form\<lparr>form_title := ''Hello'', form_is_published := True\<rparr>)))
     = Inr [(True, Some 200)] \<and>
   map_sum id (\<lambda>(r, a). map (\<lambda>p. (is_published p, published_at p)) (posts a))
     (and_then
        (and_then
           (create_post slugify_ascii (at_time 100) (Some admin)
              (blank_form\<lparr>form_title := ''Hello'', form_is_published := True\<rparr>) fresh_app)
           (toggle_publish (at_time 150) (Some admin) 1))
        (toggle_publish (at_time 200) (Some admin) 1))
     = Inr [(True, Some 100)]"
  by code_simp


section \<open>Tags by name\<close>

lemma fold_max_start: "m \<le> fold max ids (m::nat)"
proof (induction ids arbitrary: m)
  case Nil
  show ?case by simp
next
  case (Cons i ids)
  have "m \<le> max i m" by simp
  also have "\<dots> \<le> fold max ids (max i m)" by (rule Cons.IH)
  finally show ?case by simp
qed

lemma fold_max_mem: "x \<in> set ids \<Longrightarrow> x \<le> fold max ids (m::nat)"
proof (induction ids arbitrary: m)
  case Nil
  then show ?case by simp
next
  case (Cons i ids)
  show ?case
  proof (cases "x = i")
    case True
    then have "x \<le> max i m" by simp
    also have "\<dots> \<le> fold max ids (max i m)" by (rule fold_max_start)
    finally show ?thesis by simp
  next
    case False
    with Cons.prems have "x \<in> set ids" by simp
    from Cons.IH [OF this] show ?thesis by simp
  qed
qed

lemma next_id_fresh: "next_id ids \<notin> set ids"
  using fold_max_mem [of "next_id ids" ids 0] by (auto simp: next_id_def)

lemma flush_no_pending: "pending s = [] \<Longrightarrow> flush s = Inr s"
  by (simp add: flush_def)

text \<open>
  Two names with the same lower-case, stripped form resolve to one tag, named by that form,
  when the tag exists or when no row has the slug of the first name.
\<close>

lemma get_or_create_same_tag:
  assumes "pending s = []" and "strip (lower n1) = strip (lower n2)"
    and "find (\<lambda>t. tag_name t = strip (lower n1)) (tag_rows s) \<noteq> None \<or>
         slugify n1 \<notin> set (map tag_slug (tag_rows s))"
  shows "\<exists>t s1 s2. get_or_create slugify n1 s = Inr (t, s1) \<and>
           get_or_create slugify n2 s1 = Inr (t, s2) \<and> tag_name t = strip (lower n1) \<and>
           pending s2 = [] \<and> find (\<lambda>t. tag_name t = strip (lower n1)) (tag_rows s2) = Some t"
proof (cases "find (\<lambda>t. tag_name t = strip (lower n1)) (tag_rows s)")
  case (Some t)
  then have n: "tag_name t = strip (lower n1)"
    using find_Some_mem [of "\<lambda>t. tag_name t = strip (lower n1)" "tag_rows s" t] by simp
  from Some assms(1,2) have "get_or_create slugify n1 s = Inr (t, s)"
    "get_or_create slugify n2 s = Inr (t, s)"
    by (simp_all add: get_or_create_def flush_no_pending)
  with n Some assms(1) show ?thesis by blast
next
  case None
  let ?t = "\<lparr>tag_id = next_id (map tag_id (tag_rows s)), tag_name = strip (lower n1),
              tag_slug = slugify n1\<rparr>"
  let ?s1 = "s\<lparr>pending := [?t]\<rparr>"
  let ?s2 = "\<lparr>tag_rows = tag_rows s @ [?t], pending = []\<rparr>"
  from None assms(1) have g1: "get_or_create slugify n1 s = Inr (?t, ?s1)"
    by (simp add: get_or_create_def flush_no_pending Let_def)
  from None assms(3) have fresh: "slugify n1 \<notin> set (map tag_slug (tag_rows s))" by simp
  have "\<not> list_ex (\<lambda>r. tag_name r = tag_name ?t \<or> tag_slug r = tag_slug ?t \<or> tag_id r = tag_id ?t)
           (tag_rows s)"
    using None fresh next_id_fresh [of "map tag_id (tag_rows s)"]
    by (force simp: list_ex_iff find_None_iff image_iff)
  then have fl: "flush ?s1 = Inr ?s2"
    by (simp add: flush_def)
  have f2: "find (\<lambda>t. tag_name t = strip (lower n1)) (tag_rows s @ [?t]) = Some ?t"
    using None by (intro find_append_new) simp_all
  with fl assms(2) have g2: "get_or_create slugify n2 ?s1 = Inr (?t, ?s2)"
    by (simp add: get_or_create_def)
  from g1 g2 f2 show ?thesis
    by (intro exI [of _ ?t] exI [of _ ?s1] exI [of _ ?s2]) simp
qed

text \<open>
  And they do not when the tag is new and a row has the slug of the first name: the flush
  before the second query fails on the unique slug.
\<close>

lemma get_or_create_collision:
  assumes "pending s = []" and "strip (lower n1) = strip (lower n2)"
    and "find (\<lambda>t. tag_name t = strip (lower n1)) (tag_rows s) = None"
    and "slugify n1 \<in> set (map tag_slug (tag_rows s))"
  shows "\<exists>t s1. get_or_create slugify n1 s = Inr (t, s1) \<and>
           get_or_create slugify n2 s1 = Inl IntegrityError"
proof -
  let ?t = "\<lparr>tag_id = next_id (map tag_id (tag_rows s)), tag_name = strip (lower n1),
              tag_slug = slugify n1\<rparr>"
  let ?s1 = "s\<lparr>pending := [?t]\<rparr>"
  from assms(1,3) have g1: "get_or_create slugify n1 s = Inr (?t, ?s1)"
    by (simp add: get_or_create_def flush_no_pending Let_def)
  have "list_ex (\<lambda>r. tag_name r = tag_name ?t \<or> tag_slug r = tag_slug ?t \<or> tag_id r = tag_id ?t)
           (tag_rows s)"
    using assms(4) by (auto simp: list_ex_iff)
  then have "flush ?s1 = Inl IntegrityError"
    by (simp add: flush_def)
  then have "get_or_create slugify n2 ?s1 = Inl IntegrityError"
    by (simp add: get_or_create_def)
  with g1 show ?thesis by blast
qed

text \<open>
  C4. ``Web Dev'' and `` web dev '' are equal in lower case and stripped. With the tag
  \<open>web-dev\<close> in the session, \<open>get_or_create\<close> of the first makes a tag \<open>web dev\<close> of the
  same slug \<open>web-dev\<close>, and \<open>get_or_create\<close> of the second raises \<open>IntegrityError\<close> at the
  flush before its query; so does the creation of a post with the tags
  ``web-dev, Web Dev'' at its commit.
\<close>

theorem get_or_create_slug_collision:
  "strip (lower ''Web Dev'') = strip (lower '' web dev '') \<and>
   get_or_create slugify_ascii ''web-dev'' \<lparr>tag_rows = [], pending = []\<rparr>
     = Inr (hyphen_tag, \<lparr>tag_rows = [], pending = [hyphen_tag]\<rparr>) \<and>
   get_or_create slugify_ascii ''Web Dev'' \<lparr>tag_rows = [], pending = [hyphen_tag]\<rparr>
     = Inr (space_tag, \<lparr>tag_rows = [hyphen_tag], pending = [space_tag]\<rparr>) \<and>
   get_or_create slugify_ascii '' web dev '' \<lparr>tag_rows = [hyphen_tag], pending = [space_tag]\<rparr>
     = Inl IntegrityError \<and>
   create_post slugify_ascii (at_time 1) (Some admin)
       (blank_form\<lparr>form_title := ''Hello'', form_tags := ''web-dev, Web Dev''\<rparr>) fresh_app
     = Inl IntegrityError"
  by code_simp

end
